theory Spec2Isabelle
  imports Main "HOL-Library.Word"
begin

unbundle bit_operations_syntax

section \<open>Machine types and character classes\<close>

text \<open>
  The server runs on a 32-bit soft core: \<^verbatim>\<open>uint8_t\<close> and \<^verbatim>\<open>uint32_t\<close> are words of
  8 and 32 bits, pointers are 32 bits wide. Text is a sequence of \<^verbatim>\<open>uint8_t\<close>.
\<close>

type_synonym uint8_t = "8 word"
type_synonym uint32_t = "32 word"

definition bytes_of :: "string \<Rightarrow> uint8_t list" where
  "bytes_of s = map of_char s"

text \<open>The classifiers of \<^verbatim>\<open>ctype.h\<close> in the C locale, on the byte values.\<close>

definition isdigit :: "uint8_t \<Rightarrow> bool" where
  "isdigit c = (48 \<le> c \<and> c \<le> 57)"

definition isxdigit :: "uint8_t \<Rightarrow> bool" where
  "isxdigit c = (isdigit c \<or> (65 \<le> c \<and> c \<le> 70) \<or> (97 \<le> c \<and> c \<le> 102))"

definition isspace :: "uint8_t \<Rightarrow> bool" where
  "isspace c = (c = 32 \<or> (9 \<le> c \<and> c \<le> 13))"

text \<open>
  A C string is read through a pointer. A buffer is a function from positions to bytes
  and a pointer into it is a position; \<open>cstr s\<close> is the buffer that holds the bytes
  of \<open>s\<close> followed by the terminating NUL.
\<close>

definition cstr :: "uint8_t list \<Rightarrow> nat \<Rightarrow> uint8_t" where
  "cstr s i = (if i < length s then s ! i else 0)"

section \<open>Hex codec\<close>

subsection \<open>\<^verbatim>\<open>hex_to_u32\<close>\<close>

text \<open>
  One round of the loop body after the \<^verbatim>\<open>isxdigit\<close> test:
  \<^verbatim>\<open>*u32 <<= 4; if(isdigit(c)) *u32 |= c - '0'; else { c |= 0x20; *u32 |= c - 'a' + 10; }\<close>.
  The subtraction is done on \<^verbatim>\<open>int\<close> after promotion.
\<close>

definition hex_digit_step :: "uint32_t \<Rightarrow> uint8_t \<Rightarrow> uint32_t" where
  "hex_digit_step v c =
     (if isdigit c then push_bit 4 v OR word_of_int (uint c - 48)
      else push_bit 4 v OR word_of_int (uint (c OR 0x20) - 97 + 10))"

text \<open>
  \<^verbatim>\<open>for(i=0; i<8; i++)\<close>: the first argument counts the rounds that are left. The result
  is the pointer returned and the value accumulated.
\<close>

fun hex_digits :: "nat \<Rightarrow> (nat \<Rightarrow> uint8_t) \<Rightarrow> nat \<Rightarrow> uint32_t \<Rightarrow> nat \<times> uint32_t" where
  "hex_digits 0 rd p v = (p, v)"
| "hex_digits (Suc i) rd p v =
     (let c = rd p in
      if \<not> isxdigit c then (p, v)
      else hex_digits i rd (p + 1) (hex_digit_step v c))"

text \<open>
  \<^verbatim>\<open>hex_to_u32(p, u32)\<close>: the pointer may be null (\<open>None\<close>); \<open>u32\<close> is the value
  the output location holds before the call, the second component of the result the value
  it holds afterwards.
\<close>

definition hex_to_u32 ::
  "(nat \<Rightarrow> uint8_t) \<Rightarrow> nat option \<Rightarrow> uint32_t \<Rightarrow> nat option \<times> uint32_t" where
  "hex_to_u32 rd p u32 =
     (case p of
        None \<Rightarrow> (None, u32)
      | Some i \<Rightarrow>
          if rd i = 0 then (Some i, u32)
          else (let (j, v) = hex_digits 8 rd i 0 in (Some j, v)))"

subsection \<open>\<^verbatim>\<open>u8_to_hex\<close> and \<^verbatim>\<open>u32_to_hex\<close>\<close>

text \<open>
  Both functions write through the pointer \<open>p\<close> and return it advanced; the model returns
  the bytes written, in order.
\<close>

definition hex_char :: "uint8_t \<Rightarrow> uint8_t" where
  "hex_char c = (if c > 9 then c - 10 + 65 else c + 48)"

definition u8_to_hex :: "uint8_t \<Rightarrow> uint8_t \<Rightarrow> uint8_t list" where
  "u8_to_hex u8 do_zeros =
     (let c = drop_bit 4 u8 AND 0xf;
          hi = (if c \<noteq> 0 \<or> drop_bit 4 do_zeros \<noteq> 0 then [hex_char c] else []);
          do_zeros' = (if c \<noteq> 0 \<or> drop_bit 4 do_zeros \<noteq> 0 then do_zeros OR c else do_zeros);
          c' = u8 AND 0xf;
          lo = (if c' \<noteq> 0 \<or> do_zeros' AND 0xf \<noteq> 0 then [hex_char c'] else [])
      in hi @ lo)"

function u32_to_hex_from :: "nat \<Rightarrow> uint32_t \<Rightarrow> uint8_t \<Rightarrow> uint8_t list" where
  "u32_to_hex_from i w do_zeros =
     (if i < 4 then
        (let c = (ucast (drop_bit (24 - 8 * i) w AND 0xff) :: uint8_t)
         in u8_to_hex c (if do_zeros \<noteq> 0 then 0x11 else if i = 3 then 1 else 0)
            @ u32_to_hex_from (i + 1) w (do_zeros OR c))
      else [])"
  by pat_completeness auto
termination
  by (relation "measure (\<lambda>(i, w, z). 4 - i)") auto

definition u32_to_hex :: "uint32_t \<Rightarrow> uint8_t \<Rightarrow> uint8_t list" where
  "u32_to_hex w do_zeros = u32_to_hex_from 0 w do_zeros"

section \<open>The value of a run of hex digits\<close>

text \<open>
  The reading of a digit string that the parser is measured against: each digit has its
  usual value, upper or lower case, and the digits are weighted most significant first.
\<close>

definition xdigit_val :: "uint8_t \<Rightarrow> nat" where
  "xdigit_val c =
     (if 48 \<le> c \<and> c \<le> 57 then unat c - 48
      else if 65 \<le> c \<and> c \<le> 70 then unat c - 55
      else if 97 \<le> c \<and> c \<le> 102 then unat c - 87
      else 0)"

definition hex_acc :: "nat \<Rightarrow> uint8_t list \<Rightarrow> nat" where
  "hex_acc a ds = foldl (\<lambda>a c. 16 * a + xdigit_val c) a ds"

definition hex_value :: "uint8_t list \<Rightarrow> nat" where
  "hex_value ds = hex_acc 0 ds"

text \<open>The digits the parser takes: the hex digits at the start, eight at most.\<close>

definition hex_prefix_len :: "uint8_t list \<Rightarrow> nat" where
  "hex_prefix_len s = length (takeWhile isxdigit (take 8 s))"

section \<open>Properties of the hex parser\<close>

lemma upper_cases: "65 \<le> c \<Longrightarrow> c \<le> 70 \<Longrightarrow> c \<in> {65, 66, 67, 68, 69, 70 :: 8 word}"
  by unat_arith

lemma lower_cases: "97 \<le> c \<Longrightarrow> c \<le> 102 \<Longrightarrow> c \<in> {97, 98, 99, 100, 101, 102 :: 8 word}"
  by unat_arith

lemma digit_cases:
  "48 \<le> c \<Longrightarrow> c \<le> 57 \<Longrightarrow> c \<in> {48, 49, 50, 51, 52, 53, 54, 55, 56, 57 :: 8 word}"
  by unat_arith

lemma isxdigit_cases:
  "isxdigit c \<Longrightarrow>
   c \<in> {48, 49, 50, 51, 52, 53, 54, 55, 56, 57, 65, 66, 67, 68, 69, 70,
        97, 98, 99, 100, 101, 102}"
  unfolding isxdigit_def isdigit_def
  using upper_cases[of c] lower_cases[of c] digit_cases[of c] by blast

lemma not_isxdigit_0 [simp]: "\<not> isxdigit 0"
  by (simp add: isxdigit_def isdigit_def)

lemma or_nibble_add:
  fixes v d :: uint32_t
  assumes "take_bit 4 d = d"
  shows "16 * v OR d = 16 * v + d"
proof -
  have "push_bit 4 v AND take_bit 4 d = 0"
    by (rule bit_eqI) (auto simp add: bit_simps)
  then have "push_bit 4 v + d = push_bit 4 v OR d"
    using assms by (simp add: disjunctive_add_eq_or)
  moreover have "push_bit 4 v = 16 * v"
    by (simp add: push_bit_eq_mult)
  ultimately show ?thesis by simp
qed

lemma push_bit_4_mult: "push_bit 4 (v::uint32_t) = 16 * v"
  by (simp add: push_bit_eq_mult)

lemma hex_digit_step_val:
  assumes "isxdigit c"
  shows "hex_digit_step v c = 16 * v + of_nat (xdigit_val c)"
  using isxdigit_cases[OF assms]
  by (elim insertE emptyE;
      simp add: hex_digit_step_def isdigit_def xdigit_val_def or_nibble_add push_bit_4_mult)

lemma xdigit_val_lt16: "xdigit_val c < 16"
  unfolding xdigit_val_def by (auto simp: word_le_nat_alt)

lemma foldl_hex_digit_step:
  "\<forall>c\<in>set ds. isxdigit c \<Longrightarrow> foldl hex_digit_step (of_nat a) ds = of_nat (hex_acc a ds)"
proof (induction ds arbitrary: a)
  case Nil
  then show ?case by (simp add: hex_acc_def)
next
  case (Cons c ds)
  have "hex_digit_step (of_nat a) c = of_nat (16 * a + xdigit_val c)"
    using Cons.prems by (simp add: hex_digit_step_val)
  then have "foldl hex_digit_step (of_nat a) (c # ds) =
             foldl hex_digit_step (of_nat (16 * a + xdigit_val c)) ds"
    by (simp only: foldl_Cons)
  also have "\<dots> = of_nat (hex_acc (16 * a + xdigit_val c) ds)"
    using Cons.prems by (intro Cons.IH) simp
  finally show ?case by (simp add: hex_acc_def)
qed

lemma hex_acc_bound: "a < 16 ^ n \<Longrightarrow> hex_acc a ds < 16 ^ (n + length ds)"
proof (induction ds arbitrary: a n)
  case Nil
  then show ?case by (simp add: hex_acc_def)
next
  case (Cons c ds)
  have "16 * a + xdigit_val c < 16 ^ Suc n"
    using Cons.prems xdigit_val_lt16[of c] by simp
  from Cons.IH[OF this] show ?case by (simp add: hex_acc_def)
qed

lemma hex_digits_numeral:
  "hex_digits (numeral k) rd p v =
     (let c = rd p in
      if \<not> isxdigit c then (p, v)
      else hex_digits (pred_numeral k) rd (p + 1) (hex_digit_step v c))"
  by (simp add: numeral_eq_Suc)

text \<open>
  On a string, the loop stops after the hex digits at the pointer (at most as many as it
  has rounds) and has folded exactly those digits into the value.
\<close>

lemma hex_digits_cstr:
  "hex_digits n (cstr s) p v =
     (p + length (takeWhile isxdigit (take n (drop p s))),
      foldl hex_digit_step v (takeWhile isxdigit (take n (drop p s))))"
proof (induction n arbitrary: p v)
  case 0
  then show ?case by simp
next
  case (Suc n)
  show ?case
  proof (cases "p < length s")
    case False
    then show ?thesis by (simp add: cstr_def)
  next
    case True
    then have d: "drop p s = s ! p # drop (Suc p) s"
      by (simp add: Cons_nth_drop_Suc)
    have c: "cstr s p = s ! p"
      using True by (simp add: cstr_def)
    show ?thesis
      by (simp add: d c Suc.IH Let_def)
  qed
qed

lemma hex_prefix_len_le: "hex_prefix_len s \<le> 8"
proof -
  have "length (takeWhile isxdigit (take 8 s)) \<le> length (take 8 s)"
    by (rule length_takeWhile_le)
  then show ?thesis by (simp add: hex_prefix_len_def)
qed

lemma takeWhile_take_prefix:
  "takeWhile P (take n s) = take (length (takeWhile P (take n s))) s"
proof -
  have "takeWhile P (take n s) = take (length (takeWhile P (take n s))) (take n s)"
    by (rule takeWhile_eq_take)
  also have "\<dots> = take (min (length (takeWhile P (take n s))) n) s"
    by simp
  also have "min (length (takeWhile P (take n s))) n = length (takeWhile P (take n s))"
    using length_takeWhile_le[of P "take n s"] by simp
  finally show ?thesis .
qed

lemma hex_prefix_digits:
  "take (hex_prefix_len s) s = takeWhile isxdigit (take 8 s)"
  unfolding hex_prefix_len_def by (rule takeWhile_take_prefix[symmetric])

lemma hex_value_prefix_bound: "hex_value (take (hex_prefix_len s) s) < 2 ^ 32"
proof -
  have "hex_acc 0 (take (hex_prefix_len s) s) < 16 ^ (0 + length (take (hex_prefix_len s) s))"
    by (rule hex_acc_bound) simp
  also have "\<dots> \<le> (16::nat) ^ 8"
    using hex_prefix_len_le[of s] by (intro power_increasing) simp_all
  finally show ?thesis by (simp add: hex_value_def)
qed

text \<open>
  C7. For every string \<open>s\<close>, \<^verbatim>\<open>hex_to_u32\<close> called at its start consumes the hex digits
  that stand there, eight at most, and returns the pointer to the first character it did
  not consume; the value stored is the most-significant-first value of the consumed digits
  (upper and lower case digits alike, by \<open>xdigit_val\<close>), which is below \<open>2 ^ 32\<close>, so
  fewer than eight digits give a right-aligned value with zeros above. When the string is
  empty (its first byte is the NUL) or the pointer is null, the output value is left as
  it was.
\<close>

theorem hex_to_u32_parses_prefix:
  "hex_to_u32 (cstr s) (Some 0) v =
     (Some (hex_prefix_len s),
      if s = [] \<or> hd s = 0 then v
      else of_nat (hex_value (take (hex_prefix_len s) s)))
   \<and> hex_prefix_len s \<le> 8
   \<and> take (hex_prefix_len s) s = takeWhile isxdigit (take 8 s)
   \<and> hex_value (take (hex_prefix_len s) s) < 2 ^ 32
   \<and> hex_to_u32 rd None v = (None, v)"
proof -
  have digits: "\<forall>c\<in>set (takeWhile isxdigit (take 8 s)). isxdigit c"
    by (auto dest: set_takeWhileD)
  have val: "foldl hex_digit_step 0 (takeWhile isxdigit (take 8 s)) =
             of_nat (hex_value (take (hex_prefix_len s) s))"
    using foldl_hex_digit_step[OF digits, of 0]
    by (simp add: hex_value_def hex_prefix_digits)
  have empty: "hex_prefix_len s = 0" if "s = [] \<or> hd s = 0"
    using that by (cases s) (auto simp: hex_prefix_len_def)
  have first: "cstr s 0 = 0 \<longleftrightarrow> s = [] \<or> hd s = 0"
    by (cases s) (auto simp: cstr_def)
  have "hex_to_u32 (cstr s) (Some 0) v =
     (Some (hex_prefix_len s),
      if s = [] \<or> hd s = 0 then v
      else of_nat (hex_value (take (hex_prefix_len s) s)))"
    using val empty
    by (simp add: hex_to_u32_def first hex_digits_cstr hex_prefix_len_def)
  moreover have "hex_to_u32 rd None v = (None, v)"
    by (simp add: hex_to_u32_def)
  ultimately show ?thesis
    using hex_prefix_len_le[of s] hex_prefix_digits[of s] hex_value_prefix_bound[of s]
    by simp
qed

text \<open>An instance: mixed case, a separator after five digits.\<close>

lemma hex_to_u32_example:
  "hex_to_u32 (cstr (bytes_of ''1aBcF.10'')) (Some 0) 7 = (Some 5, 0x1ABCF)"
  by (simp add: hex_to_u32_def cstr_def bytes_of_def isxdigit_def isdigit_def
      hex_digit_step_def hex_digits_numeral)

section \<open>Transfer state and machine state\<close>

text \<open>
  \<^verbatim>\<open>struct tapcp_state\<close>, the object handed to every callback of a transfer. Its
  declaration is in a header; the fields are the ones the functions use: \<^verbatim>\<open>write\<close>
  (here \<open>write_flag\<close>), \<^verbatim>\<open>binary\<close>, the cursor \<^verbatim>\<open>ptr\<close>, the signed counters
  \<^verbatim>\<open>nleft\<close> and \<^verbatim>\<open>lidx\<close>, and the scratch word \<^verbatim>\<open>u32\<close>. The counters are integers;
  where a 32-bit unsigned value is stored into one, the conversion is written out.
\<close>

record tapcp_state =
  write_flag :: bool
  binary :: bool
  ptr :: uint32_t
  nleft :: int
  lidx :: int
  u32 :: uint32_t

text \<open>
  What the callbacks share besides the transfer state: the memory reached by 32-bit
  loads and stores through \<^verbatim>\<open>state->ptr\<close> (\<open>mem32\<close>, by address), the memory read byte
  by byte (\<open>mem8\<close>), the static \<^verbatim>\<open>line_buf\<close>, and the function-local
  \<^verbatim>\<open>static uint32_t word\<close> of \<^verbatim>\<open>read_fpga_words_binary\<close> (\<open>word_rb\<close>),
  \<^verbatim>\<open>write_fpga_words_binary\<close> (\<open>word_wb\<close>) and \<^verbatim>\<open>write_fpga_words_ascii\<close> (\<open>word_wa\<close>).
\<close>

record machine =
  mem32 :: "uint32_t \<Rightarrow> uint32_t"
  mem8 :: "uint32_t \<Rightarrow> uint8_t"
  line_buf :: "nat \<Rightarrow> uint8_t"
  word_rb :: uint32_t
  word_wb :: uint32_t
  word_wa :: uint32_t

text \<open>\<^verbatim>\<open>static uint8_t line_buf[256+2+9+9+3]\<close>.\<close>

definition sizeof_line_buf :: nat where
  "sizeof_line_buf = 256 + 2 + 9 + 9 + 3"

text \<open>
  A packet buffer of the network stack: \<^verbatim>\<open>len\<close> is the length of \<open>payload\<close>,
  \<^verbatim>\<open>next\<close> is the rest of the list.
\<close>

record pbuf =
  payload :: "uint8_t list"
  tot_len :: nat

section \<open>Write codecs\<close>

subsection \<open>\<^verbatim>\<open>casper_tapcp_write_fpga_words_binary\<close>\<close>

text \<open>
  The body of the \<^verbatim>\<open>for\<close> loop after the bound check: shift the byte into the static
  word, store the word when the count of bytes reaches a multiple of four, count
  \<^verbatim>\<open>nleft\<close> down when it is positive.
\<close>

definition wb_byte :: "uint8_t \<Rightarrow> tapcp_state \<Rightarrow> machine \<Rightarrow> tapcp_state \<times> machine" where
  "wb_byte b st m =
     (let w = push_bit 8 (word_wb m) OR ucast b;
          cnt = u32 st + 1;
          m1 = (if cnt AND 3 = 0 then m\<lparr>mem32 := (mem32 m)(ptr st := w)\<rparr> else m);
          st1 = (if cnt AND 3 = 0 then st\<lparr>ptr := ptr st + 4\<rparr> else st);
          st2 = (if nleft st1 > 0 then st1\<lparr>nleft := nleft st1 - 1\<rparr> else st1)
      in (st2\<lparr>u32 := cnt\<rparr>, m1\<lparr>word_wb := w\<rparr>))"

text \<open>
  The \<^verbatim>\<open>for\<close> loop over one payload. The flag is set when the loop left the function
  by \<^verbatim>\<open>return -1\<close>.
\<close>

fun wb_bytes :: "uint8_t list \<Rightarrow> tapcp_state \<Rightarrow> machine \<Rightarrow> bool \<times> tapcp_state \<times> machine" where
  "wb_bytes [] st m = (False, st, m)"
| "wb_bytes (b # bs) st m =
     (if nleft st = 0 then (True, st, m)
      else (case wb_byte b st m of (st', m') \<Rightarrow> wb_bytes bs st' m'))"

text \<open>
  The \<^verbatim>\<open>while(pbuf)\<close> loop; \<open>tot\<close> is the local \<^verbatim>\<open>tot_len\<close>, which the function
  returns and no statement assigns after its initialisation to 0.
\<close>

fun wb_chain :: "pbuf list \<Rightarrow> int \<Rightarrow> tapcp_state \<Rightarrow> machine \<Rightarrow> int \<times> tapcp_state \<times> machine" where
  "wb_chain [] tot st m = (tot, st, m)"
| "wb_chain (pb # rest) tot st m =
     (case wb_bytes (payload pb) st m of
        (True, st', m') \<Rightarrow> (-1, st', m')
      | (False, st', m') \<Rightarrow>
          if tot_len pb \<le> length (payload pb) then (tot, st', m')
          else wb_chain rest tot st' m')"

definition casper_tapcp_write_fpga_words_binary ::
  "tapcp_state \<Rightarrow> machine \<Rightarrow> pbuf list \<Rightarrow> int \<times> tapcp_state \<times> machine" where
  "casper_tapcp_write_fpga_words_binary st m chain = (let tot = 0 in wb_chain chain tot st m)"

subsection \<open>\<^verbatim>\<open>casper_tapcp_write_fpga_words_ascii\<close>\<close>

text \<open>
  How a loop of the function ends: it runs to its end (\<open>Cont\<close>), the function returns
  (\<open>Exit\<close>, with the value), or an access falls outside \<^verbatim>\<open>line_buf\<close> (\<open>Overrun\<close>),
  where the behaviour of the C program is undefined.
\<close>

datatype 'a flow = Cont 'a | Exit int 'a | Overrun

lemma hex_digits_mono: "p \<le> fst (hex_digits n rd p v)"
proof (induction n arbitrary: p v)
  case 0
  then show ?case by simp
next
  case (Suc n)
  have "p + 1 \<le> fst (hex_digits n rd (p + 1) (hex_digit_step v (rd p)))"
    by (rule Suc.IH)
  then show ?case by (simp add: Let_def)
qed

lemma hex_to_u32_advances:
  assumes "isxdigit (rd p)" and "hex_to_u32 rd (Some p) v = (q, w)"
  shows "\<exists>j. q = Some j \<and> p < j"
proof -
  have nz: "rd p \<noteq> 0" using assms(1) by auto
  have "p + 1 \<le> fst (hex_digits 7 rd (p + 1) (hex_digit_step 0 (rd p)))"
    by (rule hex_digits_mono)
  then show ?thesis
    using assms nz by (auto simp: hex_to_u32_def hex_digits_numeral Let_def split: prod.splits)
qed

text \<open>
  The loop \<^verbatim>\<open>while(isxdigit(*plb))\<close>: one word is parsed, stored at the cursor, and the
  cursor advanced. \<open>plb\<close> is the position of the local pointer in \<^verbatim>\<open>line_buf\<close>.
\<close>

function wa_words ::
  "nat \<Rightarrow> tapcp_state \<Rightarrow> machine \<Rightarrow> (nat \<times> tapcp_state \<times> machine) flow" where
  "wa_words plb st m =
     (if sizeof_line_buf \<le> plb then Overrun
      else if \<not> isxdigit (line_buf m plb) then Cont (plb, st, m)
      else if 0 \<le> nleft st \<and> nleft st < 4 then Exit (-1) (plb, st, m)
      else
        (case hex_to_u32 (line_buf m) (Some plb) (word_wa m) of
           (None, w) \<Rightarrow> Overrun
         | (Some plb', w) \<Rightarrow>
             wa_words plb'
               (st\<lparr>ptr := ptr st + 4,
                   nleft := (if nleft st > 0 then nleft st - 4 else nleft st)\<rparr>)
               (m\<lparr>mem32 := (mem32 m)(ptr st := w), word_wa := w\<rparr>)))"
  by pat_completeness auto
termination
proof (relation "measure (\<lambda>(plb, st, m). sizeof_line_buf - plb)", goal_cases)
  case 1
  then show ?case by simp
next
  case (2 plb st m x1 w plb')
  then show ?case
    using hex_to_u32_advances[of "line_buf m" plb "word_wa m" x1 w] by auto
qed


declare wa_words.simps [simp del]

lemma wa_words_advances:
  "wa_words plb st m = Cont (plb', st', m') \<Longrightarrow>
   plb \<le> plb' \<and> (isxdigit (line_buf m plb) \<longrightarrow> plb < plb') \<and> line_buf m' = line_buf m"
proof (induction plb st m rule: wa_words.induct)
  case (1 plb st m)
  show ?case
  proof (cases "sizeof_line_buf \<le> plb \<or> \<not> isxdigit (line_buf m plb)
                 \<or> (0 \<le> nleft st \<and> nleft st < 4)")
    case True
    then show ?thesis
      using "1.prems" by (subst (asm) wa_words.simps) (auto split: if_splits)
  next
    case False
    obtain q w where h: "hex_to_u32 (line_buf m) (Some plb) (word_wa m) = (q, w)"
      by (cases "hex_to_u32 (line_buf m) (Some plb) (word_wa m)")
    from hex_to_u32_advances[OF _ h] False obtain j where j: "q = Some j" "plb < j"
      by auto
    define st2 where "st2 = st\<lparr>ptr := ptr st + 4,
                   nleft := (if nleft st > 0 then nleft st - 4 else nleft st)\<rparr>"
    define m2 where "m2 = m\<lparr>mem32 := (mem32 m)(ptr st := w), word_wa := w\<rparr>"
    have "wa_words plb st m = wa_words j st2 m2"
      using False h j by (subst wa_words.simps) (auto simp add: st2_def m2_def)
    then have rec: "wa_words j st2 m2 = Cont (plb', st', m')"
      using "1.prems" by simp
    have "j \<le> plb' \<and> line_buf m' = line_buf m2"
      using "1.IH" False h j rec
      by (auto simp add: st2_def m2_def)
    then show ?thesis using j by (simp add: m2_def)
  qed
qed

text \<open>The loop \<^verbatim>\<open>while(*plb != '\n')\<close> that processes a buffered line.\<close>

function wa_line ::
  "nat \<Rightarrow> tapcp_state \<Rightarrow> machine \<Rightarrow> (nat \<times> tapcp_state \<times> machine) flow" where
  "wa_line plb st m =
     (if sizeof_line_buf \<le> plb then Overrun
      else if line_buf m plb = 10 then Cont (plb, st, m)
      else if isspace (line_buf m plb) then wa_line (plb + 1) st m
      else if \<not> isxdigit (line_buf m plb) then Cont (plb, st, m)
      else
        (case wa_words plb st m of
           Cont (plb', st', m') \<Rightarrow> wa_line plb' st' m'
         | Exit r s \<Rightarrow> Exit r s
         | Overrun \<Rightarrow> Overrun))"
  by pat_completeness auto
termination
proof (relation "measure (\<lambda>(plb, st, m). sizeof_line_buf - plb)", goal_cases)
  case 1
  then show ?case by simp
next
  case (2 plb st m)
  then show ?case by simp
next
  case (3 plb st m x1 plb' x2 st' m')
  then show ?case
    using wa_words_advances[of plb st m plb' st' m'] by auto
qed

declare wa_line.simps [simp del]

text \<open>
  The \<^verbatim>\<open>for\<close> loop over one payload. The bound test compares \<^verbatim>\<open>lidx\<close> with
  \<^verbatim>\<open>sizeof(line_buf)\<close> as unsigned values, so a negative \<^verbatim>\<open>lidx\<close> fails it too. After a
  line is processed \<^verbatim>\<open>lidx\<close> is set to 0 while the local \<open>plb\<close> stays where the
  processing left it.
\<close>

fun wa_bytes ::
  "uint8_t list \<Rightarrow> nat \<Rightarrow> tapcp_state \<Rightarrow> machine \<Rightarrow> (nat \<times> tapcp_state \<times> machine) flow" where
  "wa_bytes [] plb st m = Cont (plb, st, m)"
| "wa_bytes (c # cs) plb st m =
     (if \<not> (0 \<le> lidx st \<and> lidx st < int sizeof_line_buf) then Exit (-1) (plb, st, m)
      else if lidx st = 0 \<and> isspace c then wa_bytes cs plb st m
      else if c = 58 \<and> u32 st = 0 then wa_bytes cs 0 (st\<lparr>lidx := 0, u32 := 1\<rparr>) m
      else if sizeof_line_buf \<le> plb then Overrun
      else if c = 10 then
        (case wa_line 0 (st\<lparr>lidx := lidx st + 1\<rparr>)
                (m\<lparr>line_buf := (line_buf m)(plb := c)\<rparr>) of
           Cont (plb2, st2, m2) \<Rightarrow> wa_bytes cs plb2 (st2\<lparr>lidx := 0, u32 := 0\<rparr>) m2
         | Exit r s \<Rightarrow> Exit r s
         | Overrun \<Rightarrow> Overrun)
      else wa_bytes cs (plb + 1) (st\<lparr>lidx := lidx st + 1\<rparr>)
             (m\<lparr>line_buf := (line_buf m)(plb := c)\<rparr>))"

fun wa_chain ::
  "pbuf list \<Rightarrow> nat \<Rightarrow> int \<Rightarrow> tapcp_state \<Rightarrow> machine \<Rightarrow> (int \<times> tapcp_state \<times> machine) option" where
  "wa_chain [] plb tot st m = Some (tot, st, m)"
| "wa_chain (pb # rest) plb tot st m =
     (case wa_bytes (payload pb) plb st m of
        Overrun \<Rightarrow> None
      | Exit r (plb', st', m') \<Rightarrow> Some (r, st', m')
      | Cont (plb', st', m') \<Rightarrow>
          if tot_len pb \<le> length (payload pb) then Some (tot, st', m')
          else wa_chain rest plb' tot st' m')"

definition casper_tapcp_write_fpga_words_ascii ::
  "tapcp_state \<Rightarrow> machine \<Rightarrow> pbuf list \<Rightarrow> (int \<times> tapcp_state \<times> machine) option" where
  "casper_tapcp_write_fpga_words_ascii st m chain =
     (let plb = nat (lidx st); tot = 0 in wa_chain chain plb tot st m)"

section \<open>Reference notions for the write codecs\<close>

text \<open>
  Four bytes as a big-endian word, a byte sequence as the sequence of its complete
  big-endian words, and a sequence of words stored at consecutive word addresses.
\<close>

definition be_word :: "uint8_t \<Rightarrow> uint8_t \<Rightarrow> uint8_t \<Rightarrow> uint8_t \<Rightarrow> uint32_t" where
  "be_word a b c d =
     push_bit 24 (ucast a) OR push_bit 16 (ucast b) OR push_bit 8 (ucast c) OR ucast d"

fun be_words :: "uint8_t list \<Rightarrow> uint32_t list" where
  "be_words (a # b # c # d # rest) = be_word a b c d # be_words rest"
| "be_words [] = []"
| "be_words [a] = []"
| "be_words [a, b] = []"
| "be_words [a, b, c] = []"

fun store_words :: "(uint32_t \<Rightarrow> uint32_t) \<Rightarrow> uint32_t \<Rightarrow> uint32_t list \<Rightarrow> uint32_t \<Rightarrow> uint32_t" where
  "store_words mem p [] = mem"
| "store_words mem p (w # ws) = store_words (mem(p := w)) (p + 4) ws"






lemma be_word_shift:
  "push_bit 8 (push_bit 8 (push_bit 8 (push_bit 8 (w::uint32_t) OR ucast (a::uint8_t)) OR ucast (b::uint8_t)) OR ucast (c::uint8_t)) OR ucast (d::uint8_t)
   = be_word a b c d"
  unfolding be_word_def
  by (rule bit_eqI) (auto simp add: bit_simps)







lemma store_words_frame:
  "(\<forall>i<length ws. a \<noteq> p + 4 * of_nat i) \<Longrightarrow> store_words mem p ws a = mem a"
proof (induction ws arbitrary: mem p)
  case Nil
  then show ?case by simp
next
  case (Cons w ws)
  have "\<forall>i<length ws. a \<noteq> (p + 4) + 4 * of_nat i"
  proof (intro allI impI)
    fix i assume "i < length ws"
    then have "a \<noteq> p + 4 * of_nat (Suc i)" using Cons.prems by auto
    then show "a \<noteq> (p + 4) + 4 * of_nat i" by (simp add: algebra_simps)
  qed
  then have "store_words (mem(p := w)) (p + 4) ws a = (mem(p := w)) a"
    by (rule Cons.IH)
  moreover have "a \<noteq> p" using Cons.prems[rule_format, of 0] by simp
  ultimately show ?case by simp
qed






lemma wb_chain_ret: "fst (wb_chain chain tot st m) = tot \<or> fst (wb_chain chain tot st m) = -1"
proof (induction chain arbitrary: st m)
  case Nil
  then show ?case by simp
next
  case (Cons pb rest)
  obtain e st' m' where r: "wb_bytes (payload pb) st m = (e, st', m')"
    by (cases "wb_bytes (payload pb) st m")
  show ?case
    using Cons.IH[of st' m'] r by (cases e) simp_all
qed

lemma wa_words_exit: "wa_words plb st m = Exit r s \<Longrightarrow> r = -1"
proof (induction plb st m rule: wa_words.induct)
  case (1 plb st m)
  show ?case
    using "1.prems" "1.IH"
    by (subst (asm) wa_words.simps) (auto split: if_splits prod.splits option.splits)
qed

lemma wa_line_exit: "wa_line plb st m = Exit r s \<Longrightarrow> r = -1"
proof (induction plb st m rule: wa_line.induct)
  case (1 plb st m)
  show ?case
    using "1.prems" "1.IH"
    by (subst (asm) wa_line.simps)
       (auto split: if_splits flow.splits dest: wa_words_exit)
qed

lemma wa_bytes_exit: "wa_bytes cs plb st m = Exit r s \<Longrightarrow> r = -1"
proof (induction cs arbitrary: plb st m)
  case Nil
  then show ?case by simp
next
  case (Cons c cs)
  show ?case
    using Cons.prems Cons.IH
    by (auto simp: Let_def split: if_splits flow.splits dest: wa_line_exit)
qed

lemma wa_chain_ret:
  "wa_chain chain plb tot st m = Some (r, s) \<Longrightarrow> r = tot \<or> r = -1"
proof (induction chain arbitrary: plb st m)
  case Nil
  then show ?case by simp
next
  case (Cons pb rest)
  show ?case
    using Cons.prems Cons.IH
    by (auto split: flow.splits if_splits dest: wa_bytes_exit)
qed

section \<open>Properties of the write codecs\<close>





lemma store_words_nth:
  "i < length ws \<Longrightarrow> length ws \<le> 2 ^ 30 \<Longrightarrow>
   store_words mem p ws (p + 4 * of_nat i) = ws ! i"
proof (induction ws arbitrary: mem p i)
  case Nil
  then show ?case by simp
next
  case (Cons w ws)
  show ?case
  proof (cases i)
    case 0
    have "\<forall>j<length ws. p \<noteq> (p + 4) + 4 * of_nat j"
    proof (intro allI impI)
      fix j assume j: "j < length ws"
      have "(of_nat (4 * Suc j) :: uint32_t) \<noteq> 0"
      proof (rule of_nat_neq_0)
        show "0 < 4 * Suc j" by simp
        show "4 * Suc j < 2 ^ LENGTH(32)" using j Cons.prems(2) by simp
      qed
      then have "(4 + 4 * of_nat j :: uint32_t) \<noteq> 0" by (simp add: algebra_simps)
      then show "p \<noteq> (p + 4) + 4 * of_nat j"
        by (simp add: add.assoc)
    qed
    then have "store_words (mem(p := w)) (p + 4) ws p = (mem(p := w)) p"
      by (rule store_words_frame)
    then show ?thesis using 0 by simp
  next
    case (Suc k)
    have "store_words (mem(p := w)) (p + 4) ws ((p + 4) + 4 * of_nat k) = ws ! k"
      using Cons.prems Suc by (intro Cons.IH) simp_all
    then show ?thesis using Suc by (simp add: algebra_simps)
  qed
qed


text \<open>Inputs for the instances below: a transfer state as a PUT opens it, and a machine.\<close>

definition put_state :: tapcp_state where
  "put_state = \<lparr>write_flag = True, binary = True, ptr = 0x40, nleft = -1, lidx = 0, u32 = 0\<rparr>"

definition zero_machine :: machine where
  "zero_machine = \<lparr>mem32 = (\<lambda>_. 0), mem8 = (\<lambda>_. 0), line_buf = (\<lambda>_. 0),
                    word_rb = 0, word_wb = 0, word_wa = 0\<rparr>"

lemma write_binary_four_bytes:
  "casper_tapcp_write_fpga_words_binary put_state zero_machine
     [\<lparr>payload = [0xDE, 0xAD, 0xBE, 0xEF], tot_len = 4\<rparr>]
   = (0, put_state\<lparr>ptr := 0x44, u32 := 4\<rparr>,
      zero_machine\<lparr>mem32 := (\<lambda>_. 0)(0x40 := 0xDEADBEEF), word_wb := 0xDEADBEEF\<rparr>)"
  by (simp add: casper_tapcp_write_fpga_words_binary_def wb_byte_def put_state_def
      zero_machine_def Let_def)

text \<open>
  C1. The value a write consumer returns is the local \<^verbatim>\<open>tot_len\<close>, which is 0 from its
  initialisation on, or \<open>-1\<close> from one of the error returns: for every state and every
  chain the binary consumer returns 0 or \<open>-1\<close>, and so does the ASCII consumer whenever
  it stays inside \<^verbatim>\<open>line_buf\<close>. A negative value comes from the error returns only, and
  on success the value is 0 whatever the number of bytes consumed. (A line that runs
  past \<^verbatim>\<open>line_buf\<close> through the local pointer, which can be ahead of \<^verbatim>\<open>lidx\<close>, is not
  caught by the test on \<^verbatim>\<open>lidx\<close> and has no defined result.) The last conjunct is an
  instance: a chain of four bytes is consumed and stored as one word, and the call
  returns 0, not 4.
\<close>

theorem write_consumers_return_zero_or_error:
  "(fst (casper_tapcp_write_fpga_words_binary st m chain) = 0
      \<or> fst (casper_tapcp_write_fpga_words_binary st m chain) = -1)
   \<and> map_option fst (casper_tapcp_write_fpga_words_ascii st m chain)
        \<in> {None, Some 0, Some (-1)}
   \<and> fst (casper_tapcp_write_fpga_words_binary put_state zero_machine
             [\<lparr>payload = [0xDE, 0xAD, 0xBE, 0xEF], tot_len = 4\<rparr>]) = 0
   \<and> mem32 (snd (snd (casper_tapcp_write_fpga_words_binary put_state zero_machine
             [\<lparr>payload = [0xDE, 0xAD, 0xBE, 0xEF], tot_len = 4\<rparr>]))) 0x40 = 0xDEADBEEF"
proof -
  have bin: "fst (casper_tapcp_write_fpga_words_binary st m chain) = 0
      \<or> fst (casper_tapcp_write_fpga_words_binary st m chain) = -1"
    using wb_chain_ret[of chain 0 st m]
    by (simp add: casper_tapcp_write_fpga_words_binary_def)
  have asc: "map_option fst (casper_tapcp_write_fpga_words_ascii st m chain)
        \<in> {None, Some 0, Some (-1)}"
  proof (cases "casper_tapcp_write_fpga_words_ascii st m chain")
    case None
    then show ?thesis by simp
  next
    case (Some res)
    obtain r s where res: "res = (r, s)" by (cases res)
    have "r = 0 \<or> r = -1"
      using Some res wa_chain_ret[of chain "nat (lidx st)" 0 st m r s]
      by (simp add: casper_tapcp_write_fpga_words_ascii_def)
    then show ?thesis using Some res by auto
  qed
  show ?thesis
    using bin asc by (simp add: write_binary_four_bytes)
qed










section \<open>Read codecs\<close>

text \<open>
  A read callback \<^verbatim>\<open>f(state, buf, bytes)\<close> returns the number of bytes it produced and
  has written them to \<open>buf\<close>; the model returns the value, the bytes written, and the
  state and machine afterwards.
\<close>

type_synonym read_result = "int \<times> uint8_t list \<times> tapcp_state \<times> machine"

subsection \<open>\<^verbatim>\<open>casper_tapcp_read_help\<close>\<close>

text \<open>
  \<^verbatim>\<open>memcpy(buf, state->ptr, len)\<close> with \<open>len\<close> the smaller of \<open>bytes\<close> and
  \<^verbatim>\<open>nleft\<close>. (A negative \<open>len\<close> would be passed to \<^verbatim>\<open>memcpy\<close> as a huge size; the model
  copies nothing then.)
\<close>

definition casper_tapcp_read_help :: "tapcp_state \<Rightarrow> machine \<Rightarrow> int \<Rightarrow> read_result" where
  "casper_tapcp_read_help st m bytes =
     (let len = (if bytes < nleft st then bytes else nleft st)
      in (len,
          map (\<lambda>i. mem8 m (ptr st + of_nat i)) [0..<nat len],
          st\<lparr>ptr := ptr st + of_int len, nleft := nleft st - len\<rparr>,
          m))"

subsection \<open>\<^verbatim>\<open>casper_tapcp_read_fpga_words_binary\<close>\<close>

text \<open>
  One round of the loop: \<^verbatim>\<open>switch(--state->nleft & 3)\<close>. It is entered with
  \<^verbatim>\<open>nleft > 0\<close>, so the decremented value is not negative and its two low bits are its
  remainder modulo 4.
\<close>

definition rfb_byte :: "tapcp_state \<Rightarrow> machine \<Rightarrow> uint8_t \<times> tapcp_state \<times> machine" where
  "rfb_byte st m =
     (let r = (nleft st - 1) mod 4; st1 = st\<lparr>nleft := nleft st - 1\<rparr>
      in if r = 3 then
           (ucast (drop_bit 24 (mem32 m (ptr st)) AND 0xff),
            st1\<lparr>ptr := ptr st + 4\<rparr>, m\<lparr>word_rb := mem32 m (ptr st)\<rparr>)
         else if r = 2 then (ucast (drop_bit 16 (word_rb m) AND 0xff), st1, m)
         else if r = 1 then (ucast (drop_bit 8 (word_rb m) AND 0xff), st1, m)
         else (ucast (word_rb m AND 0xff), st1, m))"

text \<open>
  \<^verbatim>\<open>while(len < bytes && state->nleft > 0)\<close>: the first argument is \<open>bytes - len\<close>.
\<close>

fun rfb_loop :: "nat \<Rightarrow> tapcp_state \<Rightarrow> machine \<Rightarrow> uint8_t list \<times> tapcp_state \<times> machine" where
  "rfb_loop 0 st m = ([], st, m)"
| "rfb_loop (Suc k) st m =
     (if nleft st > 0 then
        (case rfb_byte st m of
           (b, st1, m1) \<Rightarrow>
             (case rfb_loop k st1 m1 of (bs, st2, m2) \<Rightarrow> (b # bs, st2, m2)))
      else ([], st, m))"

definition casper_tapcp_read_fpga_words_binary ::
  "tapcp_state \<Rightarrow> machine \<Rightarrow> int \<Rightarrow> read_result" where
  "casper_tapcp_read_fpga_words_binary st m bytes =
     (case rfb_loop (nat bytes) st m of (out, st', m') \<Rightarrow> (int (length out), out, st', m'))"

subsection \<open>The hexdump producers\<close>

text \<open>
  The block ``copy data to buf'' that the text producers share:
  \<^verbatim>\<open>plb = line_buf + state->lidx; while(len < bytes) { *buf++ = *plb; len++;
  if(*plb == '\n') { state->lidx = 0; break; } else { state->lidx++; } plb++; }\<close>.
  The first argument is \<open>bytes - len\<close>. The position read is \<^verbatim>\<open>lidx\<close>; the lines the
  producers build end in LF and are shorter than \<^verbatim>\<open>line_buf\<close>.
\<close>

fun copy_line :: "nat \<Rightarrow> tapcp_state \<Rightarrow> machine \<Rightarrow> uint8_t list \<times> tapcp_state" where
  "copy_line 0 st m = ([], st)"
| "copy_line (Suc k) st m =
     (if line_buf m (nat (lidx st)) = 10 then ([10], st\<lparr>lidx := 0\<rparr>)
      else (case copy_line k (st\<lparr>lidx := lidx st + 1\<rparr>) m of
              (cs, st') \<Rightarrow> (line_buf m (nat (lidx st)) # cs, st')))"

text \<open>Writing a rendered line to the start of \<^verbatim>\<open>line_buf\<close>.\<close>

definition set_line :: "uint8_t list \<Rightarrow> machine \<Rightarrow> machine" where
  "set_line l m = m\<lparr>line_buf := (\<lambda>i. if i < length l then l ! i else line_buf m i)\<rparr>"

text \<open>
  \<^verbatim>\<open>casper_tapcp_read_fpga_words_ascii\<close>: the loop \<^verbatim>\<open>for(i=0; i<4; i++)\<close> that reads up
  to four words for a line, from round \<open>i\<close> on. It returns the text of the words and the
  state.
\<close>

function rfa_words :: "nat \<Rightarrow> tapcp_state \<Rightarrow> machine \<Rightarrow> uint8_t list \<times> tapcp_state" where
  "rfa_words i st m =
     (if i < 4 then
        (if nleft st - 4 = 0 then
           ((if i > 0 then [32] else []) @ u32_to_hex (mem32 m (ptr st)) 1,
            st\<lparr>ptr := ptr st + 4, nleft := nleft st - 4\<rparr>)
         else
           (case rfa_words (i + 1) (st\<lparr>ptr := ptr st + 4, nleft := nleft st - 4\<rparr>) m of
              (rest, st') \<Rightarrow>
                ((if i > 0 then [32] else []) @ u32_to_hex (mem32 m (ptr st)) 1 @ rest, st')))
      else ([], st))"
  by pat_completeness auto
termination
  by (relation "measure (\<lambda>(i, st, m). 4 - i)") auto

declare rfa_words.simps [simp del]

text \<open>The block ``start a new line'': label, colon, space, the words, LF.\<close>

definition rfa_new_line :: "tapcp_state \<Rightarrow> machine \<Rightarrow> tapcp_state \<times> machine" where
  "rfa_new_line st m =
     (case rfa_words 0 (st\<lparr>u32 := u32 st + 16\<rparr>) m of
        (ws, st') \<Rightarrow> (st', set_line (u32_to_hex (u32 st) 1 @ [58, 32] @ ws @ [10]) m))"

lemma copy_line_length:
  "length (fst (copy_line k st m)) \<le> k \<and> (0 < k \<longrightarrow> 0 < length (fst (copy_line k st m)))"
proof (induction k arbitrary: st)
  case 0
  then show ?case by simp
next
  case (Suc k)
  obtain cs st' where r: "copy_line k (st\<lparr>lidx := lidx st + 1\<rparr>) m = (cs, st')"
    by (cases "copy_line k (st\<lparr>lidx := lidx st + 1\<rparr>) m")
  have "length cs \<le> k"
    using Suc.IH[of "st\<lparr>lidx := lidx st + 1\<rparr>"] r by simp
  then show ?case using r by simp
qed

text \<open>
  The outer loop \<^verbatim>\<open>while(len < bytes && state->nleft > 0)\<close> of a hexdump producer; the
  first argument is its ``start a new line'' block, the second is \<open>bytes - len\<close>.
\<close>

function hexdump_loop ::
  "(tapcp_state \<Rightarrow> machine \<Rightarrow> tapcp_state \<times> machine) \<Rightarrow> nat \<Rightarrow> tapcp_state \<Rightarrow> machine
   \<Rightarrow> uint8_t list \<times> tapcp_state \<times> machine" where
  "hexdump_loop new_line k st m =
     (if 0 < k \<and> nleft st > 0 then
        (case (if lidx st = 0 then new_line st m else (st, m)) of
           (st1, m1) \<Rightarrow>
             (case copy_line k st1 m1 of
                (cs, st2) \<Rightarrow>
                  (case hexdump_loop new_line (k - length cs) st2 m1 of
                     (rest, st3, m3) \<Rightarrow> (cs @ rest, st3, m3))))
      else ([], st, m))"
  by pat_completeness auto
termination
proof (relation "measure (\<lambda>(new_line, k, st, m). k)", goal_cases)
  case 1
  then show ?case by simp
next
  case (2 new_line k st m st1 m1 cs st2)
  have "0 < length (fst (copy_line k st1 m1))"
    using copy_line_length[of k st1 m1] 2 by simp
  moreover have "fst (copy_line k st1 m1) = cs"
    using 2 by (metis fst_conv)
  ultimately show ?case using 2 by simp
qed

declare hexdump_loop.simps [simp del]

definition casper_tapcp_read_fpga_words_ascii ::
  "tapcp_state \<Rightarrow> machine \<Rightarrow> int \<Rightarrow> read_result" where
  "casper_tapcp_read_fpga_words_ascii st m bytes =
     (case hexdump_loop rfa_new_line (nat bytes) st m of
        (out, st', m') \<Rightarrow> (int (length out), out, st', m'))"

text \<open>
  \<^verbatim>\<open>casper_tapcp_read_mem_bytes_ascii\<close>: the loop \<^verbatim>\<open>for(i=0; i<16; i++)\<close>. The byte is
  fetched by \<^verbatim>\<open>*(uint32_t *)state->ptr++\<close>, a 32-bit load at the cursor narrowed to
  \<^verbatim>\<open>uint8_t\<close> by the call; the cursor advances by one.
\<close>

function rma_bytes :: "nat \<Rightarrow> tapcp_state \<Rightarrow> machine \<Rightarrow> uint8_t list \<times> tapcp_state" where
  "rma_bytes i st m =
     (if i < 16 then
        (if nleft st - 1 = 0 then
           (u8_to_hex (ucast (mem32 m (ptr st))) 0x11
              @ (if i mod 4 = 3 \<and> i \<noteq> 15 then [32] else []),
            st\<lparr>ptr := ptr st + 1, nleft := nleft st - 1\<rparr>)
         else
           (case rma_bytes (i + 1) (st\<lparr>ptr := ptr st + 1, nleft := nleft st - 1\<rparr>) m of
              (rest, st') \<Rightarrow>
                (u8_to_hex (ucast (mem32 m (ptr st))) 0x11
                   @ (if i mod 4 = 3 \<and> i \<noteq> 15 then [32] else []) @ rest, st')))
      else ([], st))"
  by pat_completeness auto
termination
  by (relation "measure (\<lambda>(i, st, m). 16 - i)") auto

declare rma_bytes.simps [simp del]

definition rma_new_line :: "tapcp_state \<Rightarrow> machine \<Rightarrow> tapcp_state \<times> machine" where
  "rma_new_line st m =
     (case rma_bytes 0 (st\<lparr>u32 := u32 st + 16\<rparr>) m of
        (bs, st') \<Rightarrow> (st', set_line (u32_to_hex (u32 st) 1 @ [58, 32] @ bs @ [10]) m))"

definition casper_tapcp_read_mem_bytes_ascii ::
  "tapcp_state \<Rightarrow> machine \<Rightarrow> int \<Rightarrow> read_result" where
  "casper_tapcp_read_mem_bytes_ascii st m bytes =
     (case hexdump_loop rma_new_line (nat bytes) st m of
        (out, st', m') \<Rightarrow> (int (length out), out, st', m'))"

subsection \<open>The engine's side of a GET\<close>

text \<open>
  The engine calls the read callback once per packet with the size of its buffer and
  stops after the first call that returns fewer bytes than it asked for. The sizes of
  the calls are the schedule; the result is what the client receives.
\<close>

fun tftp_reads ::
  "(tapcp_state \<Rightarrow> machine \<Rightarrow> int \<Rightarrow> read_result) \<Rightarrow> tapcp_state \<Rightarrow> machine \<Rightarrow> int list
   \<Rightarrow> uint8_t list" where
  "tftp_reads f st m [] = []"
| "tftp_reads f st m (n # ns) =
     (case f st m n of
        (k, out, st', m') \<Rightarrow> if k < n then out else out @ tftp_reads f st' m' ns)"


section \<open>Openers\<close>

text \<open>The callback an opener registers with \<^verbatim>\<open>set_tftp_read\<close> or \<^verbatim>\<open>set_tftp_write\<close>.\<close>

datatype callback =
    Read_help
  | Read_temp
  | Read_listdev_ascii
  | Read_mem_bytes_binary
  | Read_mem_bytes_ascii
  | Read_fpga_words_binary
  | Read_fpga_words_ascii
  | Write_fpga_words_binary
  | Write_fpga_words_ascii

text \<open>The static \<^verbatim>\<open>tapcp_help_msg\<close>, without its terminating NUL.\<close>

definition tapcp_help_msg :: "uint8_t list" where
  "tapcp_help_msg = bytes_of
     (''Available TAPCP commands:'' @ [CHR 0x0A] @
      ''  /help    - this message'' @ [CHR 0x0A] @
      ''  /listdev - list FPGA device info'' @ [CHR 0x0A] @
      ''  /temp    - get FPGA temperature'' @ [CHR 0x0A] @
      ''  [/dev/]DEVNAME[.OFFSET[.LENGTH]] - access DEVNAME'' @ [CHR 0x0A] @
      ''  /fpga.OFFSET[.LENGTH] - access FPGA memory space'' @ [CHR 0x0A] @
      ''  /cpu.OFFSET[.LENGTH]  - access CPU memory space'' @ [CHR 0x0A])"

text \<open>
  \<^verbatim>\<open>casper_tapcp_open_help\<close>; \<open>help_addr\<close> is the address of \<^verbatim>\<open>tapcp_help_msg\<close>,
  \<^verbatim>\<open>sizeof(tapcp_help_msg) - 1\<close> the length of the text.
\<close>

definition casper_tapcp_open_help ::
  "uint32_t \<Rightarrow> tapcp_state \<Rightarrow> (tapcp_state \<times> callback) option" where
  "casper_tapcp_open_help help_addr st =
     Some (st\<lparr>ptr := help_addr, nleft := int (length tapcp_help_msg)\<rparr>, Read_help)"

text \<open>The array \<^verbatim>\<open>tapcp_help_msg\<close> lies in memory at \<open>help_addr\<close>.\<close>

definition help_msg_at :: "machine \<Rightarrow> uint32_t \<Rightarrow> bool" where
  "help_msg_at m help_addr =
     (map (\<lambda>i. mem8 m (help_addr + of_nat i)) [0..<length tapcp_help_msg] = tapcp_help_msg)"


lemma read_help_step:
  assumes "help_msg_at m a" and "k \<le> length tapcp_help_msg" and "0 \<le> n"
    and "ptr st = a + of_nat k" and "nleft st = int (length tapcp_help_msg - k)"
  shows "casper_tapcp_read_help st m n =
           (min n (int (length tapcp_help_msg - k)),
            take (nat n) (drop k tapcp_help_msg),
            st\<lparr>ptr := a + of_nat (k + nat (min n (int (length tapcp_help_msg - k)))),
                nleft := int (length tapcp_help_msg - (k + nat (min n (int (length tapcp_help_msg - k)))))\<rparr>,
            m)"
proof -
  let ?L = "length tapcp_help_msg"
  let ?len = "min n (int (?L - k))"
  have len: "(if n < nleft st then n else nleft st) = ?len"
    using assms(5) by (simp add: min_def)
  have bytes: "map (\<lambda>i. mem8 m (ptr st + of_nat i)) [0..<nat ?len]
               = take (nat n) (drop k tapcp_help_msg)"
  proof (rule nth_equalityI)
    show "length (map (\<lambda>i. mem8 m (ptr st + of_nat i)) [0..<nat ?len])
          = length (take (nat n) (drop k tapcp_help_msg))"
      using assms(2,3) by (auto simp add: min_def)
  next
    fix i assume "i < length (map (\<lambda>i. mem8 m (ptr st + of_nat i)) [0..<nat ?len])"
    then have i: "i < nat ?len" by simp
    then have ik: "k + i < ?L" using assms(2,3) by (simp add: min_def split: if_splits)
    have "mem8 m (a + of_nat (k + i)) = tapcp_help_msg ! (k + i)"
      using assms(1) ik unfolding help_msg_at_def
      by (metis (no_types, lifting) add_0 diff_zero length_map length_upt nth_map nth_upt)
    then show "map (\<lambda>i. mem8 m (ptr st + of_nat i)) [0..<nat ?len] ! i
               = take (nat n) (drop k tapcp_help_msg) ! i"
      using i ik assms(3,4) by (simp add: add.assoc)
  qed
  have p: "ptr st + of_int ?len = a + of_nat (k + nat ?len)"
    using assms(3,4) by (simp add: min_def)
  have nl: "nleft st - ?len = int (?L - (k + nat ?len))"
    using assms(2,3,5) by (simp add: min_def)
  show ?thesis
    unfolding casper_tapcp_read_help_def len Let_def bytes p nl by simp
qed

lemma sum_list_pos_bound:
  fixes ns :: "int list"
  shows "\<forall>n\<in>set ns. 0 < n \<Longrightarrow> 0 \<le> sum_list ns"
  by (induction ns) auto

lemma tftp_reads_help:
  assumes "help_msg_at m a"
  shows "k \<le> length tapcp_help_msg \<Longrightarrow> \<forall>n\<in>set ns. 0 < n \<Longrightarrow>
         int (length tapcp_help_msg - k) < sum_list ns \<Longrightarrow>
         ptr st = a + of_nat k \<Longrightarrow> nleft st = int (length tapcp_help_msg - k) \<Longrightarrow>
         tftp_reads casper_tapcp_read_help st m ns = drop k tapcp_help_msg"
proof (induction ns arbitrary: k st)
  case Nil
  then show ?case by simp
next
  case (Cons n ns)
  let ?L = "length tapcp_help_msg"
  let ?len = "min n (int (?L - k))"
  let ?st' = "st\<lparr>ptr := a + of_nat (k + nat ?len), nleft := int (?L - (k + nat ?len))\<rparr>"
  have n0: "0 \<le> n" "0 < n" using Cons.prems(2) by auto
  have step: "casper_tapcp_read_help st m n = (?len, take (nat n) (drop k tapcp_help_msg), ?st', m)"
    by (rule read_help_step[OF assms Cons.prems(1) n0(1) Cons.prems(4) Cons.prems(5)])
  show ?case
  proof (cases "int (?L - k) < n")
    case True
    then have "?len < n" by simp
    moreover have "take (nat n) (drop k tapcp_help_msg) = drop k tapcp_help_msg"
      using True by simp
    ultimately show ?thesis using step True by simp
  next
    case False
    then have len: "?len = n" by simp
    have k': "k + nat n \<le> ?L" using False n0 by linarith
    have rest: "tftp_reads casper_tapcp_read_help ?st' m ns = drop (k + nat ?len) tapcp_help_msg"
    proof (rule Cons.IH)
      show "k + nat ?len \<le> ?L" using k' len by simp
      show "\<forall>n\<in>set ns. 0 < n" using Cons.prems(2) by simp
      show "int (?L - (k + nat ?len)) < sum_list ns"
        using Cons.prems(3) k' len n0 by (simp add: of_nat_diff)
      show "ptr ?st' = a + of_nat (k + nat ?len)" by simp
      show "nleft ?st' = int (?L - (k + nat ?len))" by simp
    qed
    have "take (nat n) (drop k tapcp_help_msg) @ drop (k + nat n) tapcp_help_msg
          = drop k tapcp_help_msg"
      by (metis add.commute append_take_drop_id drop_drop)
    then show ?thesis using step rest len by simp
  qed
qed

text \<open>
  \<^verbatim>\<open>casper_tapcp_open_listdev\<close>. \<open>core_info\<close> is the address \<^verbatim>\<open>CORE_INFO\<close> and
  \<open>core_info_size\<close> the value of \<^verbatim>\<open>Xil_Ntohs(_core_info_size_be)\<close>, both external.
\<close>

definition casper_tapcp_open_listdev ::
  "uint32_t \<Rightarrow> nat \<Rightarrow> tapcp_state \<Rightarrow> (tapcp_state \<times> callback) option" where
  "casper_tapcp_open_listdev core_info core_info_size st =
     (if binary st then
        Some (st\<lparr>ptr := core_info - 2, nleft := int core_info_size + 2\<rparr>, Read_mem_bytes_binary)
      else Some (st\<lparr>ptr := core_info, lidx := -1\<rparr>, Read_listdev_ascii))"

subsection \<open>\<^verbatim>\<open>casper_tapcp_open_dev\<close>\<close>

text \<open>
  \<^verbatim>\<open>struct casper_dev_info\<close>, filled by \<^verbatim>\<open>casper_find_dev\<close>; both are declared in a header.
  The function is a parameter of the opener: it takes the device name and returns the
  pointer to the device's memory (0 for the null pointer) and the descriptor.
\<close>

record casper_dev_info =
  dev_offset :: uint32_t
  dev_length :: uint32_t

text \<open>
  The file name is a byte buffer that the opener writes to. \<open>strchr s start ch\<close> is
  \<^verbatim>\<open>strchr(s + start, ch)\<close> for a character \<open>ch\<close> other than NUL, and
  \<open>c_string s start\<close> the string that starts at \<open>s + start\<close>.
\<close>

definition c_string :: "uint8_t list \<Rightarrow> nat \<Rightarrow> uint8_t list" where
  "c_string s start = takeWhile (\<lambda>c. c \<noteq> 0) (drop start s)"

definition strchr :: "uint8_t list \<Rightarrow> nat \<Rightarrow> uint8_t \<Rightarrow> nat option" where
  "strchr s start ch =
     (if ch \<in> set (c_string s start)
      then Some (start + length (takeWhile (\<lambda>c. c \<noteq> ch) (c_string s start)))
      else None)"

text \<open>\<^verbatim>\<open>if(!strncmp("/dev/", fname, strlen("/dev/"))) fname += strlen("/dev/");\<close>\<close>

definition dev_start :: "uint8_t list \<Rightarrow> nat" where
  "dev_start fname = (if take 5 fname = bytes_of ''/dev/'' then 5 else 0)"

text \<open>
  The parsing of offset and length after the restored dot; \<open>p\<close> is the pointer behind the
  dot, null when there is no dot. The result is \<^verbatim>\<open>cmd_off\<close> and \<^verbatim>\<open>cmd_len\<close>.
\<close>

definition dev_parse :: "bool \<Rightarrow> uint8_t list \<Rightarrow> nat option \<Rightarrow> uint32_t \<times> uint32_t" where
  "dev_parse wr s p =
     (case p of
        None \<Rightarrow> (0, 0)
      | Some j \<Rightarrow>
          if cstr s j = 0 then (0, 0)
          else
            (case hex_to_u32 (cstr s) (Some j) 0 of
               (None, cmd_off) \<Rightarrow> (cmd_off, 0)
             | (Some j2, cmd_off) \<Rightarrow>
                 if \<not> wr \<and> cstr s j2 \<noteq> 0
                 then (cmd_off, snd (hex_to_u32 (cstr s) (Some (j2 + 1)) 0))
                 else (cmd_off, 0)))"

text \<open>
  The function from ``zero or not given length'' on. The arithmetic on \<^verbatim>\<open>cmd_off\<close>
  and \<^verbatim>\<open>cmd_len\<close> is that of \<^verbatim>\<open>uint32_t\<close>; the byte count \<^verbatim>\<open>cmd_len << 2\<close> is stored
  into the signed \<^verbatim>\<open>nleft\<close>.
\<close>

definition dev_setup ::
  "tapcp_state \<Rightarrow> uint32_t \<Rightarrow> casper_dev_info \<Rightarrow> uint32_t \<Rightarrow> uint32_t
   \<Rightarrow> (tapcp_state \<times> callback) option" where
  "dev_setup st dev_ptr dev_info cmd_off cmd_len0 =
     (let cmd_len = (if cmd_len0 = 0 then drop_bit 2 (dev_length dev_info) - cmd_off
                     else cmd_len0)
      in if cmd_len = 0 then None
         else if \<not> write_flag st \<and> cmd_off + cmd_len > drop_bit 2 (dev_length dev_info)
         then None
         else
           (let st1 = st\<lparr>ptr := dev_ptr + push_bit 2 cmd_off,
                          nleft := sint (push_bit 2 cmd_len)\<rparr>
            in if \<not> write_flag st then
                 (if binary st then Some (st1, Read_fpga_words_binary)
                  else Some (st1\<lparr>lidx := 0, u32 := 0\<rparr>, Read_fpga_words_ascii))
               else
                 (if binary st then Some (st1\<lparr>u32 := 0\<rparr>, Write_fpga_words_binary)
                  else Some (st1\<lparr>lidx := 0, u32 := 0\<rparr>, Write_fpga_words_ascii))))"

text \<open>
  The whole opener. The result is the file name buffer as the function leaves it and
  the handle (\<open>None\<close> for \<^verbatim>\<open>NULL\<close>). The dot is overwritten by NUL for the lookup and
  written back after it.
\<close>

definition dev_name :: "uint8_t list \<Rightarrow> uint8_t list" where
  "dev_name fname =
     c_string (case strchr fname (dev_start fname) 46 of
                 Some i \<Rightarrow> fname[i := 0] | None \<Rightarrow> fname)
              (dev_start fname)"

definition casper_tapcp_open_dev ::
  "(uint8_t list \<Rightarrow> uint32_t \<times> casper_dev_info) \<Rightarrow> tapcp_state \<Rightarrow> uint8_t list
   \<Rightarrow> uint8_t list \<times> (tapcp_state \<times> callback) option" where
  "casper_tapcp_open_dev find_dev st fname =
     (let p = strchr fname (dev_start fname) 46;
          fname1 = (case p of Some i \<Rightarrow> fname[i := 0] | None \<Rightarrow> fname);
          found = find_dev (c_string fname1 (dev_start fname));
          fname2 = (case p of Some i \<Rightarrow> fname1[i := 46] | None \<Rightarrow> fname1);
          p' = map_option Suc p
      in (fname2,
          if fst found = 0 then None
          else if write_flag st \<and> dev_offset (snd found) AND 1 \<noteq> 0 then None
          else
            (case dev_parse (write_flag st) fname2 p' of
               (cmd_off, cmd_len) \<Rightarrow> dev_setup st (fst found) (snd found) cmd_off cmd_len)))"

subsection \<open>\<^verbatim>\<open>casper_tapcp_open_mem\<close>\<close>

text \<open>
  The function after the prefix is stripped: \<open>s\<close> is the rest of the name,
  \<open>baseaddr\<close> and \<open>nbytes\<close> the locals set by the prefix test. \<open>fpga_base\<close> and
  \<open>fpga_nbytes\<close> are the constants \<^verbatim>\<open>FPGA_BASEADDR\<close> and \<^verbatim>\<open>FPGA_NBYTES\<close> of the
  platform.
\<close>

definition mem_setup ::
  "uint32_t \<Rightarrow> uint32_t \<Rightarrow> tapcp_state \<Rightarrow> uint8_t list \<Rightarrow> uint32_t \<Rightarrow> uint32_t
   \<Rightarrow> (tapcp_state \<times> callback) option" where
  "mem_setup fpga_base fpga_nbytes st s baseaddr nbytes =
     (if cstr s 0 = 0 then None
      else
        (case hex_to_u32 (cstr s) (Some 0) 0 of
           (p, off0) \<Rightarrow>
             (let len0 = (case p of
                            Some j \<Rightarrow>
                              if \<not> write_flag st \<and> cstr s j \<noteq> 0
                              then snd (hex_to_u32 (cstr s) (Some (j + 1)) 1)
                              else 1
                          | None \<Rightarrow> 1);
                  cmd_off = off0 AND NOT 3;
                  cmd_len = (len0 + 3) AND NOT 3
              in if \<not> write_flag st \<and> cmd_len = 0 then None
                 else if \<not> write_flag st \<and> baseaddr = fpga_base \<and> cmd_off + cmd_len > nbytes
                 then None
                 else
                   (let st1 = st\<lparr>ptr := baseaddr + cmd_off,
                                  nleft := (if write_flag st then sint (fpga_nbytes - cmd_off)
                                            else sint cmd_len)\<rparr>
                    in if \<not> write_flag st then
                         (if baseaddr = fpga_base then
                            (if binary st then Some (st1, Read_fpga_words_binary)
                             else Some (st1\<lparr>lidx := 0, u32 := 0\<rparr>, Read_fpga_words_ascii))
                          else
                            (if binary st then Some (st1, Read_mem_bytes_binary)
                             else Some (st1\<lparr>lidx := 0, u32 := 0\<rparr>, Read_mem_bytes_ascii)))
                       else
                         (if binary st then Some (st1\<lparr>u32 := 0\<rparr>, Write_fpga_words_binary)
                          else Some (st1\<lparr>lidx := 0, u32 := 0\<rparr>, Write_fpga_words_ascii))))))"

definition casper_tapcp_open_mem ::
  "uint32_t \<Rightarrow> uint32_t \<Rightarrow> tapcp_state \<Rightarrow> uint8_t list \<Rightarrow> (tapcp_state \<times> callback) option" where
  "casper_tapcp_open_mem fpga_base fpga_nbytes st fname =
     (if take 6 fname = bytes_of ''/fpga.''
      then mem_setup fpga_base fpga_nbytes st (drop 6 fname) fpga_base fpga_nbytes
      else if \<not> write_flag st \<and> take 5 fname = bytes_of ''/cpu.''
      then mem_setup fpga_base fpga_nbytes st (drop 5 fname) 0 0
      else None)"


subsection \<open>The resolver\<close>

text \<open>
  What the platform supplies to the openers: the catalog lookup, the FPGA region, the
  address of the help text, the catalog blob.
\<close>

record platform =
  pf_find_dev :: "uint8_t list \<Rightarrow> uint32_t \<times> casper_dev_info"
  pf_fpga_base :: uint32_t
  pf_fpga_nbytes :: uint32_t
  pf_help_addr :: uint32_t
  pf_core_info :: uint32_t
  pf_core_info_size :: nat

definition has_prefix :: "string \<Rightarrow> uint8_t list \<Rightarrow> bool" where
  "has_prefix p s = (take (length p) s = bytes_of p)"

text \<open>
  Modelled from the spec: the resolver \<^verbatim>\<open>casper_tapcp_open\<close>, which the source file does
  not contain. It follows the dispatch table and the error policy of section 4.G:
  \<^verbatim>\<open>/help\<close>, \<^verbatim>\<open>/listdev\<close> and \<^verbatim>\<open>/temp\<close> are GET only; \<^verbatim>\<open>/dev/NAME\<close> and a name without
  a leading slash go to the device opener, \<^verbatim>\<open>/fpga.\<close> and \<^verbatim>\<open>/cpu.\<close> to the memory opener;
  any other name fails. The transfer state is created with the direction and the mode
  the engine determined. The temperature producer is external.
\<close>

definition casper_tapcp_open ::
  "platform \<Rightarrow> uint8_t list \<Rightarrow> bool \<Rightarrow> bool
   \<Rightarrow> uint8_t list \<times> (tapcp_state \<times> callback) option" where
  "casper_tapcp_open pf fname octet wr =
     (if has_prefix ''/help'' fname then
        (fname,
         if wr then None
         else casper_tapcp_open_help (pf_help_addr pf)
                \<lparr>write_flag = wr, binary = octet, ptr = 0, nleft = 0, lidx = 0, u32 = 0\<rparr>)
      else if has_prefix ''/listdev'' fname then
        (fname,
         if wr then None
         else casper_tapcp_open_listdev (pf_core_info pf) (pf_core_info_size pf)
                \<lparr>write_flag = wr, binary = octet, ptr = 0, nleft = 0, lidx = 0, u32 = 0\<rparr>)
      else if has_prefix ''/temp'' fname then
        (fname,
         if wr then None
         else Some (\<lparr>write_flag = wr, binary = octet, ptr = 0, nleft = 0, lidx = 0, u32 = 0\<rparr>,
                    Read_temp))
      else if has_prefix ''/dev/'' fname \<or> \<not> has_prefix ''/'' fname then
        casper_tapcp_open_dev (pf_find_dev pf)
          \<lparr>write_flag = wr, binary = octet, ptr = 0, nleft = 0, lidx = 0, u32 = 0\<rparr> fname
      else if has_prefix ''/fpga.'' fname \<or> has_prefix ''/cpu.'' fname then
        (fname,
         casper_tapcp_open_mem (pf_fpga_base pf) (pf_fpga_nbytes pf)
           \<lparr>write_flag = wr, binary = octet, ptr = 0, nleft = 0, lidx = 0, u32 = 0\<rparr> fname)
      else (fname, None))"

text \<open>A platform for the instances: a catalog of two devices of four words each.\<close>

definition demo_find_dev :: "uint8_t list \<Rightarrow> uint32_t \<times> casper_dev_info" where
  "demo_find_dev name =
     (if name = bytes_of ''sys'' then (0x10000, \<lparr>dev_offset = 0x10000, dev_length = 16\<rparr>)
      else if name = bytes_of ''rom'' then (0x20000, \<lparr>dev_offset = 0x20001, dev_length = 16\<rparr>)
      else (0, \<lparr>dev_offset = 0, dev_length = 0\<rparr>))"

definition demo_platform :: platform where
  "demo_platform = \<lparr>pf_find_dev = demo_find_dev, pf_fpga_base = 0x40000000, pf_fpga_nbytes = 0x10000,
                     pf_help_addr = 0x1000, pf_core_info = 0x2000, pf_core_info_size = 0\<rparr>"

definition get_text_state :: tapcp_state where
  "get_text_state =
     \<lparr>write_flag = False, binary = False, ptr = 0, nleft = 0, lidx = 0, u32 = 0\<rparr>"

section \<open>Properties of the openers\<close>

lemma length_takeWhile_mem:
  "x \<in> set xs \<Longrightarrow> length (takeWhile (\<lambda>c. c \<noteq> x) xs) < length xs"
  by (induction xs) auto

lemma strchr_Some:
  assumes "strchr s start ch = Some i"
  shows "i < length s \<and> s ! i = ch"
proof -
  let ?t = "c_string s start"
  let ?k = "length (takeWhile (\<lambda>c. c \<noteq> ch) ?t)"
  have mem: "ch \<in> set ?t" and i: "i = start + ?k"
    using assms by (auto simp: strchr_def split: if_splits)
  have k: "?k < length ?t"
    using mem by (rule length_takeWhile_mem)
  have tk: "?t ! ?k = ch"
    using nth_length_takeWhile[OF k] by simp
  have len: "length ?t \<le> length (drop start s)"
    unfolding c_string_def by (rule length_takeWhile_le)
  have "?t ! ?k = drop start s ! ?k"
    unfolding c_string_def using k[unfolded c_string_def] by (rule takeWhile_nth)
  moreover have "start + ?k < length s" using k len by simp
  ultimately show ?thesis using tk i by simp
qed

text \<open>
  C10. For every file name, every catalog lookup and every state, the buffer that
  \<^verbatim>\<open>casper_tapcp_open_dev\<close> leaves behind equals the one it was given, whether the
  handle returned is null or not: the NUL written over the first dot is replaced by the
  dot before the first \<^verbatim>\<open>return\<close>.
\<close>

theorem open_dev_restores_fname:
  "fst (casper_tapcp_open_dev find_dev st fname) = fname"
proof (cases "strchr fname (dev_start fname) 46")
  case None
  then show ?thesis by (simp add: casper_tapcp_open_dev_def Let_def)
next
  case (Some i)
  from strchr_Some[OF Some] have "i < length fname" "fname ! i = 46" by simp_all
  then have "fname[i := 0, i := 46] = fname"
    by (simp add: list_update_same_conv)
  then show ?thesis using Some by (simp add: casper_tapcp_open_dev_def Let_def)
qed

lemma open_dev_during_lookup:
  "dev_name (bytes_of ''/dev/sys.1.3'') = bytes_of ''sys''
   \<and> fst (casper_tapcp_open_dev demo_find_dev get_text_state (bytes_of ''/dev/sys.1.3''))
       = bytes_of ''/dev/sys.1.3''"
  by (simp add: open_dev_restores_fname)
     (simp add: dev_name_def dev_start_def strchr_def c_string_def bytes_of_def)

text \<open>
  C3, evaluated. The device \<^verbatim>\<open>sys\<close> has 16 bytes, four words. A GET of \<^verbatim>\<open>sys.5\<close>, with
  the offset beyond the device and no length, is opened: the length
  \<^verbatim>\<open>(dev_info.length >> 2) - cmd_off\<close> wraps around to \<open>2 ^ 32 - 1\<close>, which is not 0,
  the sum in the bounds check wraps around to 4, and \<^verbatim>\<open>nleft\<close> becomes \<open>-4\<close>. A GET of
  \<^verbatim>\<open>/dev/sys.ffffffff.2\<close> is opened as well, with the cursor one word before the device
  and two words to read: the sum of offset and length wraps around to 1.
\<close>

theorem open_dev_bounds_wrap:
  "snd (casper_tapcp_open_dev demo_find_dev get_text_state (bytes_of ''sys.5''))
     = Some (get_text_state\<lparr>ptr := 0x10014, nleft := -4\<rparr>, Read_fpga_words_ascii)
   \<and> snd (casper_tapcp_open_dev demo_find_dev get_text_state (bytes_of ''/dev/sys.ffffffff.2''))
     = Some (get_text_state\<lparr>ptr := 0xFFFC, nleft := 8\<rparr>, Read_fpga_words_ascii)"
  by code_simp

lemma has_prefixE:
  assumes "has_prefix p s"
  obtains r where "s = bytes_of p @ r"
proof -
  have "take (length p) s = bytes_of p"
    using assms by (simp add: has_prefix_def)
  then have "s = bytes_of p @ drop (length p) s"
    by (metis append_take_drop_id)
  then show ?thesis by (rule that)
qed

lemma open_mem_cpu_put:
  assumes "write_flag st" and "has_prefix ''/cpu.'' fname"
  shows "casper_tapcp_open_mem fb fn st fname = None"
proof -
  from assms(2) obtain r where "fname = bytes_of ''/cpu.'' @ r" by (rule has_prefixE)
  then show ?thesis
    using assms(1) by (simp add: casper_tapcp_open_mem_def bytes_of_def)
qed

lemma open_dev_read_only_put:
  "write_flag st \<Longrightarrow> dev_offset (snd (find_dev (dev_name fname))) AND 1 \<noteq> 0 \<Longrightarrow>
   snd (casper_tapcp_open_dev find_dev st fname) = None"
  by (simp add: casper_tapcp_open_dev_def dev_name_def Let_def)

lemma slash_prefix:
  assumes "has_prefix p s" and "take 1 (bytes_of p) = [47]"
  shows "has_prefix ''/'' s"
proof -
  from assms(1) obtain r where s: "s = bytes_of p @ r" by (rule has_prefixE)
  obtain c cs where p: "bytes_of p = c # cs"
    using assms(2) by (cases "bytes_of p") simp_all
  then have "c = 47" using assms(2) by simp
  moreover have "bytes_of ''/'' = [47]" by (simp add: bytes_of_def)
  ultimately show ?thesis by (simp add: s p has_prefix_def)
qed

text \<open>
  C4. A PUT (\<open>wr = True\<close>) of a name that starts with \<^verbatim>\<open>/cpu.\<close>, \<^verbatim>\<open>/help\<close>,
  \<^verbatim>\<open>/listdev\<close> or \<^verbatim>\<open>/temp\<close>, or of a device name (with or without \<^verbatim>\<open>/dev/\<close>) whose
  catalog entry has the low bit of its offset word set, is answered with the null handle.
  The last two conjuncts state the two cases that \<^verbatim>\<open>casper_tapcp_open_mem\<close> and
  \<^verbatim>\<open>casper_tapcp_open_dev\<close> decide on these functions themselves. No opener takes or
  returns the machine: an open, failed or not, leaves the memory as it is, and after a
  null handle no write callback is registered.
\<close>

theorem put_to_read_only_fails:
  "(has_prefix ''/cpu.'' fname \<or> has_prefix ''/help'' fname
      \<or> has_prefix ''/listdev'' fname \<or> has_prefix ''/temp'' fname
    \<longrightarrow> snd (casper_tapcp_open pf fname octet True) = None)
   \<and> ((has_prefix ''/dev/'' fname \<or> \<not> has_prefix ''/'' fname)
        \<and> dev_offset (snd (pf_find_dev pf (dev_name fname))) AND 1 \<noteq> 0
    \<longrightarrow> snd (casper_tapcp_open pf fname octet True) = None)
   \<and> (write_flag st \<and> has_prefix ''/cpu.'' fname
    \<longrightarrow> casper_tapcp_open_mem fb fn st fname = None)
   \<and> (write_flag st \<and> dev_offset (snd (fd (dev_name fname))) AND 1 \<noteq> 0
    \<longrightarrow> snd (casper_tapcp_open_dev fd st fname) = None)"
proof -
  have h_cpu: "snd (casper_tapcp_open pf fname octet True) = None" if c: "has_prefix ''/cpu.'' fname"
  proof -
    from c obtain r where "fname = bytes_of ''/cpu.'' @ r" by (rule has_prefixE)
    then have "\<not> has_prefix ''/help'' fname" "\<not> has_prefix ''/listdev'' fname"
      "\<not> has_prefix ''/temp'' fname" "\<not> has_prefix ''/dev/'' fname" "has_prefix ''/'' fname"
      by (simp_all add: has_prefix_def bytes_of_def)
    then show ?thesis
      using c by (simp add: casper_tapcp_open_def open_mem_cpu_put)
  qed
  have h_help: "snd (casper_tapcp_open pf fname octet True) = None" if "has_prefix ''/help'' fname"
    using that by (simp add: casper_tapcp_open_def)
  have h_listdev: "snd (casper_tapcp_open pf fname octet True) = None"
    if c: "has_prefix ''/listdev'' fname"
  proof -
    from c obtain r where "fname = bytes_of ''/listdev'' @ r" by (rule has_prefixE)
    then have "\<not> has_prefix ''/help'' fname"
      by (simp add: has_prefix_def bytes_of_def)
    then show ?thesis using c by (simp add: casper_tapcp_open_def)
  qed
  have h_temp: "snd (casper_tapcp_open pf fname octet True) = None"
    if c: "has_prefix ''/temp'' fname"
  proof -
    from c obtain r where "fname = bytes_of ''/temp'' @ r" by (rule has_prefixE)
    then have "\<not> has_prefix ''/help'' fname" "\<not> has_prefix ''/listdev'' fname"
      by (simp_all add: has_prefix_def bytes_of_def)
    then show ?thesis using c by (simp add: casper_tapcp_open_def)
  qed
  have h_dev: "snd (casper_tapcp_open pf fname octet True) = None"
    if d: "has_prefix ''/dev/'' fname \<or> \<not> has_prefix ''/'' fname"
      and ro: "dev_offset (snd (pf_find_dev pf (dev_name fname))) AND 1 \<noteq> 0"
  proof -
    have other: "\<not> has_prefix ''/help'' fname \<and> \<not> has_prefix ''/listdev'' fname
                 \<and> \<not> has_prefix ''/temp'' fname"
    proof (cases "has_prefix ''/dev/'' fname")
      case True
      then obtain r where "fname = bytes_of ''/dev/'' @ r" by (rule has_prefixE)
      then show ?thesis by (simp add: has_prefix_def bytes_of_def)
    next
      case False
      then have ns: "\<not> has_prefix ''/'' fname" using d by simp
      have "has_prefix ''/'' fname" if "has_prefix ''/help'' fname"
        by (rule slash_prefix[OF that]) (simp add: bytes_of_def)
      moreover have "has_prefix ''/'' fname" if "has_prefix ''/listdev'' fname"
        by (rule slash_prefix[OF that]) (simp add: bytes_of_def)
      moreover have "has_prefix ''/'' fname" if "has_prefix ''/temp'' fname"
        by (rule slash_prefix[OF that]) (simp add: bytes_of_def)
      ultimately show ?thesis using ns by blast
    qed
    show ?thesis
      using other d ro
      by (simp add: casper_tapcp_open_def open_dev_read_only_put)
  qed
  show ?thesis
    using h_cpu h_help h_listdev h_temp h_dev open_mem_cpu_put[of st fname fb fn]
      open_dev_read_only_put[of st fd fname]
    by blast
qed

theorem put_to_read_only_fails_witness:
  "has_prefix ''/cpu.'' (bytes_of ''/cpu.0'')
   \<and> snd (casper_tapcp_open demo_platform (bytes_of ''/cpu.0'') True True) = None
   \<and> has_prefix ''/help'' (bytes_of ''/help'')
   \<and> snd (casper_tapcp_open demo_platform (bytes_of ''/help'') False True) = None
   \<and> has_prefix ''/dev/'' (bytes_of ''/dev/rom.1'')
   \<and> dev_offset (snd (pf_find_dev demo_platform (dev_name (bytes_of ''/dev/rom.1'')))) AND 1 \<noteq> 0
   \<and> snd (casper_tapcp_open demo_platform (bytes_of ''/dev/rom.1'') True True) = None
   \<and> write_flag (get_text_state\<lparr>write_flag := True\<rparr>)
   \<and> casper_tapcp_open_mem 0x40000000 0x10000 (get_text_state\<lparr>write_flag := True\<rparr>)
        (bytes_of ''/cpu.0'') = None
   \<and> snd (casper_tapcp_open_dev demo_find_dev (get_text_state\<lparr>write_flag := True\<rparr>)
        (bytes_of ''/dev/rom.1'')) = None"
proof -
  have a: "has_prefix ''/cpu.'' (bytes_of ''/cpu.0'')"
    by (simp add: has_prefix_def bytes_of_def)
  have b: "has_prefix ''/help'' (bytes_of ''/help'')"
    by (simp add: has_prefix_def bytes_of_def)
  have c: "has_prefix ''/dev/'' (bytes_of ''/dev/rom.1'')"
    by (simp add: has_prefix_def bytes_of_def)
  have n: "dev_name (bytes_of ''/dev/rom.1'') = bytes_of ''rom''"
    by (simp add: dev_name_def dev_start_def strchr_def c_string_def bytes_of_def)
  have d: "dev_offset (snd (pf_find_dev demo_platform (dev_name (bytes_of ''/dev/rom.1'')))) AND 1 \<noteq> 0"
    unfolding n by (simp add: demo_platform_def demo_find_dev_def bytes_of_def)
  have d': "dev_offset (snd (demo_find_dev (dev_name (bytes_of ''/dev/rom.1'')))) AND 1 \<noteq> 0"
    using d by (simp add: demo_platform_def)
  have w: "write_flag (get_text_state\<lparr>write_flag := True\<rparr>)" by simp
  note t1 = put_to_read_only_fails[of "bytes_of ''/cpu.0''" demo_platform True
      "get_text_state\<lparr>write_flag := True\<rparr>" "0x40000000" "0x10000" demo_find_dev]
  note t2 = put_to_read_only_fails[of "bytes_of ''/help''" demo_platform False
      "get_text_state\<lparr>write_flag := True\<rparr>" "0x40000000" "0x10000" demo_find_dev]
  note t3 = put_to_read_only_fails[of "bytes_of ''/dev/rom.1''" demo_platform True
      "get_text_state\<lparr>write_flag := True\<rparr>" "0x40000000" "0x10000" demo_find_dev]
  show ?thesis
    using t1 t2 t3 a b c d d' w by blast
qed

section \<open>Properties of the read codecs\<close>

lemma tapcp_help_msg_length: "length tapcp_help_msg = 274"
  by (simp add: tapcp_help_msg_def bytes_of_def)

text \<open>
  C9. With the help text in memory at \<open>help_addr\<close>, a GET that \<^verbatim>\<open>casper_tapcp_open_help\<close>
  opens and the engine drives with calls of any positive sizes (as many as the transfer
  needs) delivers \<^verbatim>\<open>tapcp_help_msg\<close>: its 274 bytes without the NUL, byte for byte, and
  nothing more. The state the opener starts from is arbitrary, and so is its \<^verbatim>\<open>binary\<close>
  flag: neither the opener nor the producer reads it, and the bytes are the same in
  both modes.
\<close>

theorem help_get_delivers_banner:
  assumes "help_msg_at m a"
    and "\<forall>n\<in>set ns. 0 < n"
    and "int (length tapcp_help_msg) < sum_list ns"
  shows "\<exists>st'. casper_tapcp_open_help a st = Some (st', Read_help)
           \<and> tftp_reads casper_tapcp_read_help st' m ns = tapcp_help_msg
           \<and> length tapcp_help_msg = 274
           \<and> casper_tapcp_open_help a (st\<lparr>binary := True\<rparr>) = Some (st'\<lparr>binary := True\<rparr>, Read_help)
           \<and> casper_tapcp_open_help a (st\<lparr>binary := False\<rparr>) = Some (st'\<lparr>binary := False\<rparr>, Read_help)
           \<and> tftp_reads casper_tapcp_read_help (st'\<lparr>binary := True\<rparr>) m ns
               = tftp_reads casper_tapcp_read_help (st'\<lparr>binary := False\<rparr>) m ns"
proof -
  define st' where "st' = st\<lparr>ptr := a, nleft := int (length tapcp_help_msg)\<rparr>"
  have run: "tftp_reads casper_tapcp_read_help s m ns = tapcp_help_msg"
    if "ptr s = a" "nleft s = int (length tapcp_help_msg)" for s
    using tftp_reads_help[OF assms(1), of 0 ns s] assms(2,3) that by simp
  have "casper_tapcp_open_help a st = Some (st', Read_help)"
    by (simp add: casper_tapcp_open_help_def st'_def)
  moreover have "tftp_reads casper_tapcp_read_help st' m ns = tapcp_help_msg"
    by (rule run) (simp_all add: st'_def)
  moreover have "tftp_reads casper_tapcp_read_help (st'\<lparr>binary := True\<rparr>) m ns = tapcp_help_msg"
    by (rule run) (simp_all add: st'_def)
  moreover have "tftp_reads casper_tapcp_read_help (st'\<lparr>binary := False\<rparr>) m ns = tapcp_help_msg"
    by (rule run) (simp_all add: st'_def)
  moreover have "casper_tapcp_open_help a (st\<lparr>binary := True\<rparr>) = Some (st'\<lparr>binary := True\<rparr>, Read_help)"
    "casper_tapcp_open_help a (st\<lparr>binary := False\<rparr>) = Some (st'\<lparr>binary := False\<rparr>, Read_help)"
    by (simp_all add: casper_tapcp_open_help_def st'_def)
  ultimately show ?thesis using tapcp_help_msg_length by auto
qed

text \<open>A machine that holds the help text at address 0x1000.\<close>

definition help_machine :: machine where
  "help_machine = \<lparr>mem32 = (\<lambda>_. 0), mem8 = (\<lambda>x. cstr tapcp_help_msg (unat (x - 0x1000))),
                    line_buf = (\<lambda>_. 0), word_rb = 0, word_wb = 0, word_wa = 0\<rparr>"

lemma help_machine_holds_msg: "help_msg_at help_machine 0x1000"
proof -
  have "map (\<lambda>i. mem8 help_machine (0x1000 + of_nat i)) [0..<length tapcp_help_msg]
        = map (\<lambda>i. tapcp_help_msg ! i) [0..<length tapcp_help_msg]"
  proof (rule map_cong[OF refl])
    fix i assume "i \<in> set [0..<length tapcp_help_msg]"
    then have i: "i < 274" by (simp add: tapcp_help_msg_length)
    then have "unat (of_nat i :: uint32_t) = i"
      by (simp add: unat_of_nat)
    then show "mem8 help_machine (0x1000 + of_nat i) = tapcp_help_msg ! i"
      using i by (simp add: help_machine_def cstr_def tapcp_help_msg_length)
  qed
  then show ?thesis
    by (simp add: help_msg_at_def map_nth)
qed

theorem help_get_delivers_banner_witness:
  "help_msg_at help_machine 0x1000
   \<and> (\<exists>st'. casper_tapcp_open_help 0x1000 get_text_state = Some (st', Read_help)
           \<and> tftp_reads casper_tapcp_read_help st' help_machine [100, 100, 100] = tapcp_help_msg)"
proof -
  have h2: "\<forall>n\<in>set [100, 100, 100 :: int]. 0 < n" by simp
  have h3: "int (length tapcp_help_msg) < sum_list [100, 100, 100]"
    by (simp add: tapcp_help_msg_length)
  from help_get_delivers_banner[OF help_machine_holds_msg h2 h3, of get_text_state]
  show ?thesis using help_machine_holds_msg by blast
qed

text \<open>A state as a GET in TEXT mode of one word opens it, and a memory of one pattern.\<close>

definition one_word_state :: tapcp_state where
  "one_word_state =
     \<lparr>write_flag = False, binary = False, ptr = 0, nleft = 4, lidx = 0, u32 = 0\<rparr>"

definition pattern_machine :: machine where
  "pattern_machine = \<lparr>mem32 = (\<lambda>_. 0x01234567), mem8 = (\<lambda>_. 0), line_buf = (\<lambda>_. 0),
                       word_rb = 0, word_wb = 0, word_wa = 0\<rparr>"

text \<open>
  C2, evaluated. One word is read in TEXT mode. With one call of 512 bytes the producer
  delivers the line \<^verbatim>\<open>00000000: 01234567\<close> and its LF, 19 bytes. With calls of 10 bytes
  the first call delivers the first 10 bytes of the line and returns 10; the line has
  been built and \<^verbatim>\<open>nleft\<close> is 0 by then, so the second call does not enter its loop and
  returns 0, which ends the transfer: the other 9 bytes of the line are never
  delivered. The same happens in \<^verbatim>\<open>casper_tapcp_read_mem_bytes_ascii\<close>.
\<close>

theorem hexdump_output_depends_on_schedule:
  "tftp_reads casper_tapcp_read_fpga_words_ascii one_word_state pattern_machine [512]
     = bytes_of (''00000000: 01234567'' @ [CHR 0x0A])
   \<and> tftp_reads casper_tapcp_read_fpga_words_ascii one_word_state pattern_machine [10, 10, 10]
     = bytes_of ''00000000: ''
   \<and> tftp_reads casper_tapcp_read_mem_bytes_ascii one_word_state pattern_machine [512]
     = bytes_of (''00000000: 67676767 '' @ [CHR 0x0A])
   \<and> tftp_reads casper_tapcp_read_mem_bytes_ascii one_word_state pattern_machine [10, 10, 10]
     = bytes_of ''00000000: ''"
  by code_simp

section \<open>The write bound and the place of a line in its call\<close>





section \<open>Reference notions for the FPGA read codecs\<close>

text \<open>
  The words of a region of \<open>n\<close> words at the address \<open>p\<close>, and a word as four bytes,
  most significant first.
\<close>

definition region_words :: "machine \<Rightarrow> uint32_t \<Rightarrow> nat \<Rightarrow> uint32_t list" where
  "region_words m p n = map (\<lambda>i. mem32 m (p + 4 * of_nat i)) [0..<n]"

definition be_bytes :: "uint32_t \<Rightarrow> uint8_t list" where
  "be_bytes w = [ucast (drop_bit 24 w), ucast (drop_bit 16 w), ucast (drop_bit 8 w), ucast w]"

text \<open>
  The OCTET producer, called on a region of whole words with a buffer that holds it: the
  bytes delivered are the words of the region, each most significant byte first, and
  their big-endian parse gives the words back.
\<close>

lemma mask_numerals: "(0xf :: 'a::len word) = mask 4" "(0xff :: 'a::len word) = mask 8"
  by (simp_all add: mask_eq_exp_minus_1)

lemma ucast_low_byte: "(ucast ((x :: uint32_t) AND 0xff) :: uint8_t) = ucast x"
  unfolding mask_numerals by (rule bit_eqI) (auto simp add: bit_simps)

lemma region_words_Suc:
  "region_words m p (Suc j) = mem32 m p # region_words m (p + 4) j"
proof -
  have "[0..<Suc j] = 0 # map Suc [0..<j]"
    by (simp add: upt_conv_Cons map_Suc_upt del: upt_Suc)
  then have "region_words m p (Suc j)
      = mem32 m (p + 4 * of_nat 0) # map (\<lambda>i. mem32 m (p + 4 * of_nat (Suc i))) [0..<j]"
    unfolding region_words_def by (simp add: comp_def del: upt_Suc)
  also have "\<dots> = mem32 m p # region_words m (p + 4) j"
    unfolding region_words_def by (simp add: algebra_simps)
  finally show ?thesis .
qed

lemma region_words_mem: "mem32 m' = mem32 m \<Longrightarrow> region_words m' p j = region_words m p j"
  by (simp add: region_words_def)

lemma be_word_be_bytes:
  "be_word (ucast (drop_bit 24 w)) (ucast (drop_bit 16 w)) (ucast (drop_bit 8 w)) (ucast w) = w"
proof (rule bit_eqI)
  fix n
  assume "possible_bit TYPE(uint32_t) n"
  then have n: "n < 32" by (simp add: possible_bit_def)
  let ?b = "be_word (ucast (drop_bit 24 w)) (ucast (drop_bit 16 w)) (ucast (drop_bit 8 w))
              (ucast w)"
  consider "n < 8" | "8 \<le> n" "n < 16" | "16 \<le> n" "n < 24" | "24 \<le> n"
    by linarith
  then show "bit ?b n = bit w n"
  proof cases
    case 1
    then show ?thesis by (simp add: be_word_def bit_simps)
  next
    case 2
    then show ?thesis by (auto simp add: be_word_def bit_simps)
  next
    case 3
    then show ?thesis by (auto simp add: be_word_def bit_simps)
  next
    case 4
    then show ?thesis using n by (auto simp add: be_word_def bit_simps)
  qed
qed

lemma be_words_be_bytes: "be_words (concat (map be_bytes ws)) = ws"
  by (induction ws) (simp_all add: be_bytes_def be_word_be_bytes)

lemma rfb_word:
  assumes "nleft st = 4 * int (Suc j)"
  shows "rfb_loop (Suc (Suc (Suc (Suc k)))) st m =
           (be_bytes (mem32 m (ptr st))
              @ fst (rfb_loop k (st\<lparr>ptr := ptr st + 4, nleft := 4 * int j\<rparr>)
                      (m\<lparr>word_rb := mem32 m (ptr st)\<rparr>)),
            snd (rfb_loop k (st\<lparr>ptr := ptr st + 4, nleft := 4 * int j\<rparr>)
                      (m\<lparr>word_rb := mem32 m (ptr st)\<rparr>)))"
proof -
  have r: "(3 + 4 * int j) mod 4 = 3" "(2 + 4 * int j) mod 4 = 2" "(1 + 4 * int j) mod 4 = 1"
    "(4 * int j) mod 4 = 0"
    by presburger+
  show ?thesis
    using assms
    by (simp add: rfb_byte_def Let_def r ucast_low_byte be_bytes_def split_beta)
qed

lemma rfb_loop_words:
  "nleft st = 4 * int j \<Longrightarrow> 4 * j \<le> k \<Longrightarrow>
   fst (rfb_loop k st m) = concat (map be_bytes (region_words m (ptr st) j))"
proof (induction j arbitrary: k st m)
  case 0
  then show ?case by (cases k) (simp_all add: region_words_def)
next
  case (Suc j)
  define k' where "k' = k - 4"
  have k: "k = Suc (Suc (Suc (Suc k')))" and k': "4 * j \<le> k'"
    using Suc.prems(2) by (simp_all add: k'_def)
  define st1 where "st1 = st\<lparr>ptr := ptr st + 4, nleft := 4 * int j\<rparr>"
  define m1 where "m1 = m\<lparr>word_rb := mem32 m (ptr st)\<rparr>"
  have n1: "nleft st1 = 4 * int j" by (simp add: st1_def)
  have "fst (rfb_loop k' st1 m1) = concat (map be_bytes (region_words m1 (ptr st1) j))"
    using n1 k' by (rule Suc.IH)
  also have "region_words m1 (ptr st1) j = region_words m (ptr st + 4) j"
    by (simp add: st1_def m1_def region_words_def)
  finally have ih:
    "fst (rfb_loop k' st1 m1) = concat (map be_bytes (region_words m (ptr st + 4) j))" .
  have "fst (rfb_loop k st m) = be_bytes (mem32 m (ptr st)) @ fst (rfb_loop k' st1 m1)"
    unfolding k rfb_word[OF Suc.prems(1)] st1_def m1_def by simp
  then show ?case
    unfolding ih region_words_Suc by simp
qed

lemma binary_read_words:
  assumes "nleft st = 4 * int j" and "4 * int j \<le> bytes"
  shows "be_words (fst (snd (casper_tapcp_read_fpga_words_binary st m bytes)))
         = region_words m (ptr st) j"
proof -
  have "4 * j \<le> nat bytes" using assms(2) by simp
  from rfb_loop_words[OF assms(1) this, of m] show ?thesis
    by (cases "rfb_loop (nat bytes) st m")
       (simp add: casper_tapcp_read_fpga_words_binary_def be_words_be_bytes)
qed

text \<open>
  The words of a hexdump as a reader takes them: the text is split into lines at LF, the
  first ten characters of a line (label, colon, space) are dropped, the rest is split at
  spaces into groups of digits, and each group is read as a number, most significant
  digit first.
\<close>

fun split_at :: "uint8_t \<Rightarrow> uint8_t list \<Rightarrow> uint8_t list list" where
  "split_at c [] = [[]]"
| "split_at c (x # xs) =
     (if x = c then [] # split_at c xs
      else (case split_at c xs of [] \<Rightarrow> [[x]] | f # fs \<Rightarrow> (x # f) # fs))"

definition fields :: "uint8_t \<Rightarrow> uint8_t list \<Rightarrow> uint8_t list list" where
  "fields c s = filter (\<lambda>f. f \<noteq> []) (split_at c s)"

definition line_words :: "uint8_t list \<Rightarrow> uint32_t list" where
  "line_words l = map (\<lambda>f. of_nat (hex_value f)) (fields 32 (drop 10 l))"

definition text_words :: "uint8_t list \<Rightarrow> uint32_t list" where
  "text_words out = concat (map line_words (fields 10 out))"

text \<open>
  A GET of a region of 48 words at address 0, as the opener leaves the state, and a
  memory in which the word at address \<open>a\<close> holds \<open>a\<close>.
\<close>

definition region_state :: tapcp_state where
  "region_state =
     \<lparr>write_flag = False, binary = False, ptr = 0, nleft = 192, lidx = 0, u32 = 0\<rparr>"

definition address_machine :: machine where
  "address_machine = \<lparr>mem32 = (\<lambda>a. a), mem8 = (\<lambda>_. 0), line_buf = (\<lambda>_. 0),
                       word_rb = 0, word_wb = 0, word_wa = 0\<rparr>"

lemma region_words_address:
  "region_words address_machine 0 n = map (\<lambda>i. 4 * of_nat i) [0..<n]"
  by (simp add: region_words_def address_machine_def)

text \<open>
  C5, evaluated. The region of 48 words is read in both modes by calls of 512 bytes, the
  size of the engine's packets. The OCTET read delivers 192 bytes in its first call, and
  their big-endian words are the 48 words of the region. The rendering of the region is
  12 lines of 46 bytes, 552 bytes: a single call of 1024 bytes delivers all of it, and
  the words on its lines are the 48 words of the region. With calls of 512 bytes the
  first call ends inside the twelfth line; building that line has counted \<^verbatim>\<open>nleft\<close> down
  to 0, so the second call does not enter its loop and returns 0, which ends the
  transfer after 512 bytes: the words on the lines delivered are the first 44 words of
  the region, and the last four never arrive.
\<close>

theorem text_read_loses_last_line:
  "be_words (tftp_reads casper_tapcp_read_fpga_words_binary region_state address_machine
       [512, 512])
     = map (\<lambda>i. 4 * of_nat i) [0..<48]
   \<and> text_words (tftp_reads casper_tapcp_read_fpga_words_ascii region_state address_machine
       [1024])
     = map (\<lambda>i. 4 * of_nat i) [0..<48]
   \<and> length (tftp_reads casper_tapcp_read_fpga_words_ascii region_state address_machine
       [512, 512]) = 512
   \<and> text_words (tftp_reads casper_tapcp_read_fpga_words_ascii region_state address_machine
       [512, 512])
     = map (\<lambda>i. 4 * of_nat i) [0..<44]"
proof -
  have n: "nleft region_state = 4 * int 48" and p: "ptr region_state = 0"
    by (simp_all add: region_state_def)
  have len: "fst (casper_tapcp_read_fpga_words_binary region_state address_machine 512) < 512"
  proof -
    have "length (fst (rfb_loop 512 region_state address_machine)) = 192"
      using rfb_loop_words[OF n, of 512 address_machine]
      by (simp add: p region_words_address be_bytes_def length_concat comp_def sum_list_triv)
    then show ?thesis
      by (cases "rfb_loop 512 region_state address_machine")
         (simp add: casper_tapcp_read_fpga_words_binary_def)
  qed
  have "tftp_reads casper_tapcp_read_fpga_words_binary region_state address_machine [512, 512]
        = fst (snd (casper_tapcp_read_fpga_words_binary region_state address_machine 512))"
    using len
    by (cases "casper_tapcp_read_fpga_words_binary region_state address_machine 512") simp
  then have b: "be_words (tftp_reads casper_tapcp_read_fpga_words_binary region_state
       address_machine [512, 512]) = map (\<lambda>i. 4 * of_nat i) [0..<48]"
    using binary_read_words[OF n, of 512 address_machine]
    by (simp add: p region_words_address)
  have t1: "text_words (tftp_reads casper_tapcp_read_fpga_words_ascii region_state
       address_machine [1024]) = map (\<lambda>i. 4 * of_nat i) [0..<48]"
    by code_simp
  have t2: "length (tftp_reads casper_tapcp_read_fpga_words_ascii region_state address_machine
       [512, 512]) = 512"
    by code_simp
  have t3: "text_words (tftp_reads casper_tapcp_read_fpga_words_ascii region_state
       address_machine [512, 512]) = map (\<lambda>i. 4 * of_nat i) [0..<44]"
    by code_simp
  show ?thesis
    using b t1 t2 t3 by (intro conjI)
qed

end
